theory Spec2Isabelle
  imports Main
begin

section \<open>compress.py: resizing every image of a directory through an external tool\<close>

text \<open>
  The script \<^verbatim>\<open>src/public/samples/photos/compress.py\<close> is seventeen lines of Python:
  \<^verbatim>\<open>
  input_dir = Path(".")
  output_dir = input_dir / "resized"
  output_dir.mkdir(exist_ok=True)
  extensions = (".jpg", ".jpeg", ".png", ".webp", ".bmp")
  for img in input_dir.iterdir():
      if img.suffix.lower() in extensions:
          out_path = output_dir / img.name
          subprocess.run(["magick", str(img), "-resize", "512x512>", str(out_path)])
  \<close>
  Everything it does is a call into \<^verbatim>\<open>pathlib\<close> or \<^verbatim>\<open>subprocess\<close>, so the embedding has two
  layers: a model of the standard-library calls the script makes (over an explicit
  directory and an explicit external tool), and the script itself, written call by call
  on top of it. Exceptions are values of \<open>result\<close>; the directory and the log of
  operating-system requests are a \<open>state\<close> passed along.
\<close>

subsection \<open>The working directory, the external tool, the log\<close>

text \<open>
  The working directory is an association list from entry names to what the entry is, in
  the order a listing yields them. \<open>LinkToDir\<close> is a symbolic link whose target is a
  directory, \<open>Other\<close> any other non-regular entry (a dangling link, a socket).
\<close>

datatype kind = File | Dir | LinkToDir | Other

record fsys =
  entries :: "(string \<times> kind) list"
  writable :: bool
  readable :: bool

datatype exn = FileExistsError | PermissionError | FileNotFoundError | CalledProcessError int

datatype event = Mkdir string | Stat string | Listdir string | Spawn "string list" | Exit int

record state =
  fs :: fsys
  trace :: "event list"

datatype 'a result = Returned 'a | Raised exn | Blocked

text \<open>
  What starting a child process with a given argument vector does: the program cannot be
  started (\<^verbatim>\<open>Popen\<close> raises, as it does with \<^verbatim>\<open>FileNotFoundError\<close> when no executable of
  that name is on the search path), it runs and exits with a return code, or it never
  exits. The child may change the directory.
\<close>

datatype proc = NotLaunched exn | Exited int | Hangs

type_synonym exec = "string list \<Rightarrow> fsys \<Rightarrow> proc \<times> fsys"

definition emit :: "event \<Rightarrow> state \<Rightarrow> state" where
  "emit e s = s\<lparr>trace := trace s @ [e]\<rparr>"

subsection \<open>pathlib: pure paths\<close>

text \<open>
  A relative path is the list of its components; \<^verbatim>\<open>Path(".")\<close> has none. The
  constructor and the \<^verbatim>\<open>/\<close> operator are modelled for an operand that is one component
  (no separator in it), which is all the script passes: \<^verbatim>\<open>"."\<close>, \<^verbatim>\<open>"resized"\<close> and the
  names a listing yields. Paths print as on POSIX, with \<^verbatim>\<open>/\<close> between the components.
\<close>

type_synonym path = "string list"

definition Path :: "string \<Rightarrow> path" where
  "Path s = (if s = ''.'' \<or> s = [] then [] else [s])"

definition truediv :: "path \<Rightarrow> string \<Rightarrow> path" where
  "truediv self key = self @ Path key"

fun join_parts :: "string list \<Rightarrow> string" where
  "join_parts [] = []"
| "join_parts [c] = c"
| "join_parts (c # cs) = c @ ''/'' @ join_parts cs"

definition str :: "path \<Rightarrow> string" where
  "str self = (if self = [] then ''.'' else join_parts self)"

definition name :: "path \<Rightarrow> string" where
  "name self = (if self = [] then [] else last self)"

text \<open>
  \<^verbatim>\<open>str.rfind\<close>: the index of the last occurrence, or \<open>-1\<close>. The scan goes through the
  string once, at index \<open>i\<close>, keeping the last index where the character was seen.
\<close>

fun rfind_from :: "int \<Rightarrow> int \<Rightarrow> string \<Rightarrow> char \<Rightarrow> int" where
  "rfind_from i found [] c = found"
| "rfind_from i found (x # xs) c = rfind_from (i + 1) (if x = c then i else found) xs c"

definition rfind :: "string \<Rightarrow> char \<Rightarrow> int" where
  "rfind s c = rfind_from 0 (- 1) s c"

text \<open>
  \<^verbatim>\<open>PurePath.suffix\<close> as Python 3.4 to 3.13 define it:
  \<^verbatim>\<open>
  name = self.name
  i = name.rfind('.')
  if 0 < i < len(name) - 1: return name[i:]
  else: return ''
  \<close>
\<close>

definition suffix :: "path \<Rightarrow> string" where
  "suffix self =
     (let nm = name self; i = rfind nm CHR ''.''
      in if 0 < i \<and> i < int (length nm) - 1 then drop (nat i) nm else [])"

text \<open>
  \<^verbatim>\<open>str.lower\<close> on the ASCII letters. A \<open>string\<close> is a list of bytes, so a character
  beyond ASCII is left as it is; Python would map some of them, but none to a string of
  the letters \<^verbatim>\<open>j p e g n w b m\<close> and the dot, so membership in \<open>extensions\<close> is the
  same.
\<close>

definition lower_char :: "char \<Rightarrow> char" where
  "lower_char c =
     (case map_of (zip ''ABCDEFGHIJKLMNOPQRSTUVWXYZ'' ''abcdefghijklmnopqrstuvwxyz'') c of
        Some d \<Rightarrow> d
      | None \<Rightarrow> c)"

definition lower :: "string \<Rightarrow> string" where
  "lower s = map lower_char s"

subsection \<open>pathlib and subprocess: the calls that reach the operating system\<close>

text \<open>
  \<^verbatim>\<open>os.mkdir\<close> of a name in the working directory: refused when an entry of that name
  exists, or when the directory does not allow new entries; the new directory is listed
  last.
\<close>

definition os_mkdir :: "string \<Rightarrow> state \<Rightarrow> unit result \<times> state" where
  "os_mkdir p s =
     (let s1 = emit (Mkdir p) s in
      case map_of (entries (fs s1)) p of
        Some k \<Rightarrow> (Raised FileExistsError, s1)
      | None \<Rightarrow>
          if writable (fs s1)
          then (Returned (), s1\<lparr>fs := (fs s1)\<lparr>entries := entries (fs s1) @ [(p, Dir)]\<rparr>\<rparr>)
          else (Raised PermissionError, s1))"

text \<open>\<^verbatim>\<open>Path.is_dir\<close> follows symbolic links and answers False for a missing entry.\<close>

definition is_dir :: "path \<Rightarrow> state \<Rightarrow> bool \<times> state" where
  "is_dir self s =
     (let s1 = emit (Stat (str self)) s in
      case map_of (entries (fs s1)) (str self) of
        Some Dir \<Rightarrow> (True, s1)
      | Some LinkToDir \<Rightarrow> (True, s1)
      | Some k \<Rightarrow> (False, s1)
      | None \<Rightarrow> (False, s1))"

text \<open>
  \<^verbatim>\<open>Path.mkdir(parents=False, exist_ok=...)\<close>:
  \<^verbatim>\<open>
  try: os.mkdir(self, mode)
  except FileNotFoundError:
      if not parents or self.parent == self: raise
      ...
  except OSError:
      if not exist_ok or not self.is_dir(): raise
  \<close>
\<close>

definition mkdir :: "path \<Rightarrow> bool \<Rightarrow> state \<Rightarrow> unit result \<times> state" where
  "mkdir self exist_ok s =
     (case os_mkdir (str self) s of
        (Returned u, s1) \<Rightarrow> (Returned (), s1)
      | (Blocked, s1) \<Rightarrow> (Blocked, s1)
      | (Raised FileNotFoundError, s1) \<Rightarrow> (Raised FileNotFoundError, s1)
      | (Raised e, s1) \<Rightarrow>
          if \<not> exist_ok then (Raised e, s1)
          else (case is_dir self s1 of
                  (True, s2) \<Rightarrow> (Returned (), s2)
                | (False, s2) \<Rightarrow> (Raised e, s2)))"

text \<open>
  \<^verbatim>\<open>Path.iterdir\<close>: one listing of the directory, taken when the loop starts; the children
  are the path extended by each name.
\<close>

definition iterdir :: "path \<Rightarrow> state \<Rightarrow> path list result \<times> state" where
  "iterdir self s =
     (let s1 = emit (Listdir (str self)) s in
      if readable (fs s1)
      then (Returned (map (\<lambda>n. truediv self n) (map fst (entries (fs s1)))), s1)
      else (Raised PermissionError, s1))"

text \<open>
  \<^verbatim>\<open>subprocess.run(args, check=...)\<close>: start the child, wait for it, and hand back its
  return code; only with \<^verbatim>\<open>check=True\<close> is a non-zero code turned into an exception.
\<close>

definition run :: "exec \<Rightarrow> string list \<Rightarrow> bool \<Rightarrow> state \<Rightarrow> int result \<times> state" where
  "run ex args check s =
     (let s1 = emit (Spawn args) s in
      case ex args (fs s1) of
        (NotLaunched e, f) \<Rightarrow> (Raised e, s1\<lparr>fs := f\<rparr>)
      | (Hangs, f) \<Rightarrow> (Blocked, s1\<lparr>fs := f\<rparr>)
      | (Exited rc, f) \<Rightarrow>
          (let s2 = emit (Exit rc) (s1\<lparr>fs := f\<rparr>) in
           if check \<and> rc \<noteq> 0 then (Raised (CalledProcessError rc), s2)
           else (Returned rc, s2)))"

subsection \<open>The script\<close>

definition input_dir :: path where
  "input_dir = Path ''.''"

definition output_dir :: path where
  "output_dir = truediv input_dir ''resized''"

definition extensions :: "string list" where
  "extensions = [''.jpg'', ''.jpeg'', ''.png'', ''.webp'', ''.bmp'']"

text \<open>The \<^verbatim>\<open>for\<close> loop, over the children the listing gave.\<close>

fun for_img :: "exec \<Rightarrow> path list \<Rightarrow> state \<Rightarrow> unit result \<times> state" where
  "for_img ex [] s = (Returned (), s)"
| "for_img ex (img # imgs) s =
     (if lower (suffix img) \<in> set extensions then
        (let out_path = truediv output_dir (name img) in
         case run ex [''magick'', str img, ''-resize'', ''512x512>'', str out_path] False s of
           (Returned rc, s1) \<Rightarrow> for_img ex imgs s1
         | (Raised e, s1) \<Rightarrow> (Raised e, s1)
         | (Blocked, s1) \<Rightarrow> (Blocked, s1))
      else for_img ex imgs s)"

text \<open>The module body, from \<^verbatim>\<open>output_dir.mkdir\<close> to the end of the loop.\<close>

definition compress :: "exec \<Rightarrow> state \<Rightarrow> unit result \<times> state" where
  "compress ex s =
     (case mkdir output_dir True s of
        (Raised e, s1) \<Rightarrow> (Raised e, s1)
      | (Blocked, s1) \<Rightarrow> (Blocked, s1)
      | (Returned u, s1) \<Rightarrow>
          (case iterdir input_dir s1 of
             (Raised e, s2) \<Rightarrow> (Raised e, s2)
           | (Blocked, s2) \<Rightarrow> (Blocked, s2)
           | (Returned imgs, s2) \<Rightarrow> for_img ex imgs s2))"

subsection \<open>Reading the log\<close>

text \<open>
  The argument vectors of the child processes the log records, in order; the source
  argument of such a vector; the directories the log records a listing of.
\<close>

fun spawned :: "event list \<Rightarrow> string list list" where
  "spawned [] = []"
| "spawned (Spawn a # evs) = a # spawned evs"
| "spawned (e # evs) = spawned evs"

fun source_arg :: "string list \<Rightarrow> string" where
  "source_arg (tool # src # rest) = src"
| "source_arg a = []"

fun listed :: "event list \<Rightarrow> string list" where
  "listed [] = []"
| "listed (Listdir p # evs) = p # listed evs"
| "listed (e # evs) = listed evs"

text \<open>
  A log of conversions alone in which every child is waited for before the next is
  started: \<open>Spawn\<close>, its \<open>Exit\<close>, \<open>Spawn\<close>, its \<open>Exit\<close>, and so on; only the last
  child may be without its \<open>Exit\<close>.
\<close>

fun sequential :: "event list \<Rightarrow> bool" where
  "sequential [] = True"
| "sequential [Spawn a] = True"
| "sequential (Spawn a # Exit rc # evs) = sequential evs"
| "sequential evs = False"

text \<open>
  Two external tools to run the script against: one that is not installed, and one that
  runs and exits with a given return code; neither touches the directory.
\<close>

definition unavailable :: exec where
  "unavailable args f = (NotLaunched FileNotFoundError, f)"

definition exits_with :: "int \<Rightarrow> exec" where
  "exits_with rc args f = (Exited rc, f)"

text \<open>The directory of the specification's example, and one with two images only.\<close>

definition photos :: fsys where
  "photos = \<lparr>entries = [(''a.jpg'', File), (''b.PNG'', File), (''c.txt'', File), (''notes.md'', File)],
             writable = True, readable = True\<rparr>"

definition two_images :: fsys where
  "two_images = \<lparr>entries = [(''a.jpg'', File), (''b.PNG'', File)], writable = True, readable = True\<rparr>"

text \<open>
  A tool whose first run never exits; a directory where a regular file is in the way of
  the output directory; one with subdirectories, one of them named like an image; and one
  with dots in unusual places.
\<close>

definition hangs :: exec where
  "hangs args f = (Hangs, f)"

definition occupied :: fsys where
  "occupied = \<lparr>entries = [(''a.jpg'', File), (''resized'', File)], writable = True, readable = True\<rparr>"

definition albums :: fsys where
  "albums = \<lparr>entries = [(''a.jpg'', File), (''resized'', Dir), (''album.png'', Dir), (''docs'', Dir)],
             writable = True, readable = True\<rparr>"

definition dotted :: fsys where
  "dotted = \<lparr>entries = [(''.jpg'', File), (''photo.jpg.txt'', File), (''archive.tar.png'', File)],
             writable = True, readable = True\<rparr>"

subsection \<open>What one call does to the log and to the directory\<close>

lemma spawned_append: "spawned (xs @ ys) = spawned xs @ spawned ys"
  by (induction xs rule: spawned.induct) simp_all

lemma Path_candidate:
  "lower (suffix (Path n)) \<in> set extensions \<Longrightarrow> Path n = [n]"
  by (auto simp: Path_def suffix_def rfind_def name_def lower_def extensions_def split: if_splits)

lemma run_trace:
  "\<exists>evs. trace (snd (run ex a c s)) = trace s @ Spawn a # evs \<and> (evs = [] \<or> (\<exists>rc. evs = [Exit rc]))"
  by (auto simp: run_def emit_def Let_def split: prod.splits proc.splits)

lemma run_Returned:
  "run ex a c s = (Returned rc, s1) \<Longrightarrow> trace s1 = trace s @ [Spawn a, Exit rc]"
  by (auto simp: run_def emit_def Let_def split: prod.splits proc.splits if_splits)

lemma run_not_Returned:
  "run ex a False s = (r, s1) \<Longrightarrow> r = Raised e \<or> r = Blocked \<Longrightarrow> trace s1 = trace s @ [Spawn a]"
  by (auto simp: run_def emit_def Let_def split: prod.splits proc.splits if_splits)

lemma for_img_trace:
  "\<exists>evs. trace (snd (for_img ex imgs s)) = trace s @ evs \<and> sequential evs"
proof (induction imgs arbitrary: s)
  case Nil
  show ?case by simp
next
  case (Cons img imgs)
  show ?case
  proof (cases "lower (suffix img) \<in> set extensions")
    case False
    with Cons.IH [of s] show ?thesis by simp
  next
    case True
    let ?a = "[''magick'', str img, ''-resize'', ''512x512>'', str (truediv output_dir (name img))]"
    obtain r s1 where R: "run ex ?a False s = (r, s1)" by (cases "run ex ?a False s")
    show ?thesis
    proof (cases r)
      case (Returned rc)
      from R Returned have T: "trace s1 = trace s @ [Spawn ?a, Exit rc]"
        by (simp add: run_Returned)
      from Cons.IH [of s1] obtain evs where
        E: "trace (snd (for_img ex imgs s1)) = trace s1 @ evs" "sequential evs" by blast
      have "trace (snd (for_img ex (img # imgs) s)) = trace s @ (Spawn ?a # Exit rc # evs)"
        using True R Returned T E by simp
      moreover have "sequential (Spawn ?a # Exit rc # evs)" using E by simp
      ultimately show ?thesis by blast
    next
      case (Raised e)
      from R Raised have "trace s1 = trace s @ [Spawn ?a]"
        using run_not_Returned [of ex ?a s r s1 e] by simp
      then have "trace (snd (for_img ex (img # imgs) s)) = trace s @ [Spawn ?a]"
        using True R Raised by simp
      moreover have "sequential [Spawn ?a]" by simp
      ultimately show ?thesis by blast
    next
      case Blocked
      from R Blocked have "trace s1 = trace s @ [Spawn ?a]"
        using run_not_Returned [of ex ?a s r s1] by simp
      then have "trace (snd (for_img ex (img # imgs) s)) = trace s @ [Spawn ?a]"
        using True R Blocked by simp
      moreover have "sequential [Spawn ?a]" by simp
      ultimately show ?thesis by blast
    qed
  qed
qed

lemma for_img_spawned:
  "\<exists>k. spawned (trace (snd (for_img ex imgs s))) =
     spawned (trace s) @
     take k (map (\<lambda>img. [''magick'', str img, ''-resize'', ''512x512>'', str (truediv output_dir (name img))])
               (filter (\<lambda>img. lower (suffix img) \<in> set extensions) imgs))"
proof (induction imgs arbitrary: s)
  case Nil
  show ?case by simp
next
  case (Cons img imgs)
  let ?cmd = "\<lambda>img. [''magick'', str img, ''-resize'', ''512x512>'', str (truediv output_dir (name img))]"
  let ?sel = "filter (\<lambda>img. lower (suffix img) \<in> set extensions)"
  show ?case
  proof (cases "lower (suffix img) \<in> set extensions")
    case False
    with Cons.IH [of s] show ?thesis by simp
  next
    case True
    obtain r s1 where R: "run ex (?cmd img) False s = (r, s1)" by (cases "run ex (?cmd img) False s")
    show ?thesis
    proof (cases r)
      case (Returned rc)
      from R Returned have T: "spawned (trace s1) = spawned (trace s) @ [?cmd img]"
        by (simp add: run_Returned spawned_append)
      from Cons.IH [of s1] obtain k where
        "spawned (trace (snd (for_img ex imgs s1))) = spawned (trace s1) @ take k (map ?cmd (?sel imgs))"
        by blast
      then have "spawned (trace (snd (for_img ex (img # imgs) s))) =
          spawned (trace s) @ take (Suc k) (map ?cmd (?sel (img # imgs)))"
        using True R Returned T by simp
      then show ?thesis by blast
    next
      case (Raised e)
      from R Raised have "trace s1 = trace s @ [Spawn (?cmd img)]"
        using run_not_Returned [of ex "?cmd img" s r s1 e] by simp
      then have "spawned (trace (snd (for_img ex (img # imgs) s))) =
          spawned (trace s) @ take (Suc 0) (map ?cmd (?sel (img # imgs)))"
        using True R Raised by (simp add: spawned_append)
      then show ?thesis by blast
    next
      case Blocked
      from R Blocked have "trace s1 = trace s @ [Spawn (?cmd img)]"
        using run_not_Returned [of ex "?cmd img" s r s1] by simp
      then have "spawned (trace (snd (for_img ex (img # imgs) s))) =
          spawned (trace s) @ take (Suc 0) (map ?cmd (?sel (img # imgs)))"
        using True R Blocked by (simp add: spawned_append)
      then show ?thesis by blast
    qed
  qed
qed

lemma run_exits:
  "ex a (fs s) = (Exited rc, f) \<Longrightarrow>
   run ex a False s = (Returned rc, s\<lparr>fs := f, trace := trace s @ [Spawn a, Exit rc]\<rparr>)"
  by (simp add: run_def emit_def)

lemma for_img_exits:
  assumes ex: "\<forall>a f. \<exists>rc f'. ex a f = (Exited rc, f')"
  shows "fst (for_img ex imgs s) = Returned () \<and>
     spawned (trace (snd (for_img ex imgs s))) =
     spawned (trace s) @
     map (\<lambda>img. [''magick'', str img, ''-resize'', ''512x512>'', str (truediv output_dir (name img))])
       (filter (\<lambda>img. lower (suffix img) \<in> set extensions) imgs)"
proof (induction imgs arbitrary: s)
  case Nil
  show ?case by simp
next
  case (Cons img imgs)
  let ?cmd = "\<lambda>img. [''magick'', str img, ''-resize'', ''512x512>'', str (truediv output_dir (name img))]"
  show ?case
  proof (cases "lower (suffix img) \<in> set extensions")
    case False
    with Cons.IH [of s] show ?thesis by simp
  next
    case True
    from ex obtain rc f where "ex (?cmd img) (fs s) = (Exited rc, f)" by blast
    then have R: "run ex (?cmd img) False s =
        (Returned rc, s\<lparr>fs := f, trace := trace s @ [Spawn (?cmd img), Exit rc]\<rparr>)"
      by (rule run_exits)
    show ?thesis
      using True R Cons.IH [of "s\<lparr>fs := f, trace := trace s @ [Spawn (?cmd img), Exit rc]\<rparr>"]
      by (simp add: spawned_append)
  qed
qed

lemma input_dir_parts: "input_dir = []"
  by (simp add: input_dir_def Path_def)

lemma output_dir_parts: "output_dir = [''resized'']"
  by (simp add: output_dir_def input_dir_def truediv_def Path_def)

lemma mkdir_resized:
  "mkdir output_dir True s =
     (case map_of (entries (fs s)) ''resized'' of
        None \<Rightarrow>
          if writable (fs s)
          then (Returned (), s\<lparr>fs := (fs s)\<lparr>entries := entries (fs s) @ [(''resized'', Dir)]\<rparr>,
                               trace := trace s @ [Mkdir ''resized'']\<rparr>)
          else (Raised PermissionError, s\<lparr>trace := trace s @ [Mkdir ''resized'', Stat ''resized'']\<rparr>)
      | Some k \<Rightarrow>
          if k = Dir \<or> k = LinkToDir
          then (Returned (), s\<lparr>trace := trace s @ [Mkdir ''resized'', Stat ''resized'']\<rparr>)
          else (Raised FileExistsError, s\<lparr>trace := trace s @ [Mkdir ''resized'', Stat ''resized'']\<rparr>))"
  by (simp add: output_dir_parts mkdir_def os_mkdir_def is_dir_def emit_def str_def Let_def
      split: option.splits kind.splits)

lemma truediv_Nil: "truediv [] = Path"
  by (rule ext) (simp add: truediv_def)

lemma compress_unfold:
  "compress ex s =
     (case mkdir output_dir True s of
        (Returned u, s1) \<Rightarrow>
          if readable (fs s1)
          then for_img ex (map Path (map fst (entries (fs s1))))
                 (s1\<lparr>trace := trace s1 @ [Listdir ''.'']\<rparr>)
          else (Raised PermissionError, s1\<lparr>trace := trace s1 @ [Listdir ''.'']\<rparr>)
      | (Raised e, s1) \<Rightarrow> (Raised e, s1)
      | (Blocked, s1) \<Rightarrow> (Blocked, s1))"
proof -
  have I: "iterdir input_dir s1 =
      (if readable (fs s1)
       then (Returned (map Path (map fst (entries (fs s1)))), s1\<lparr>trace := trace s1 @ [Listdir ''.'']\<rparr>)
       else (Raised PermissionError, s1\<lparr>trace := trace s1 @ [Listdir ''.'']\<rparr>))" for s1
    by (simp add: input_dir_parts iterdir_def emit_def str_def Let_def truediv_Nil)
  show ?thesis
    by (simp add: compress_def I split: prod.splits result.splits)
qed

lemma resized_no_candidate: "lower (suffix (Path ''resized'')) \<notin> set extensions"
  by (simp add: Path_def suffix_def rfind_def name_def lower_def extensions_def)

lemma commands_of_names:
  "map (\<lambda>img. [''magick'', str img, ''-resize'', ''512x512>'', str (truediv output_dir (name img))])
     (filter (\<lambda>img. lower (suffix img) \<in> set extensions) (map Path ns)) =
   map (\<lambda>n. [''magick'', n, ''-resize'', ''512x512>'', ''resized/'' @ n])
     (filter (\<lambda>n. lower (suffix (Path n)) \<in> set extensions) ns)"
proof (induction ns)
  case Nil
  show ?case by simp
next
  case (Cons n ns)
  show ?case
  proof (cases "lower (suffix (Path n)) \<in> set extensions")
    case False
    with Cons show ?thesis by simp
  next
    case True
    then have "Path n = [n]" by (rule Path_candidate)
    with True Cons show ?thesis
      by (simp add: output_dir_parts str_def name_def truediv_def)
  qed
qed

lemma mkdir_result:
  "\<exists>r s1. mkdir output_dir True s = (r, s1) \<and> (r = Returned () \<or> (\<exists>e. r = Raised e)) \<and>
     (trace s1 = trace s @ [Mkdir ''resized''] \<or> trace s1 = trace s @ [Mkdir ''resized'', Stat ''resized'']) \<and>
     (fs s1 = fs s \<or> fs s1 = (fs s)\<lparr>entries := entries (fs s) @ [(''resized'', Dir)]\<rparr>)"
  by (simp add: mkdir_resized split: option.splits)

lemma compress_spawned:
  "\<exists>k. spawned (trace (snd (compress ex s))) =
     spawned (trace s) @
     take k (map (\<lambda>n. [''magick'', n, ''-resize'', ''512x512>'', ''resized/'' @ n])
               (filter (\<lambda>n. lower (suffix (Path n)) \<in> set extensions) (map fst (entries (fs s)))))"
proof -
  let ?cmds = "\<lambda>ns. map (\<lambda>n. [''magick'', n, ''-resize'', ''512x512>'', ''resized/'' @ n])
               (filter (\<lambda>n. lower (suffix (Path n)) \<in> set extensions) ns)"
  from mkdir_result [of s] obtain r s1 where
    M: "mkdir output_dir True s = (r, s1)" and
    R: "r = Returned () \<or> (\<exists>e. r = Raised e)" and
    T: "trace s1 = trace s @ [Mkdir ''resized''] \<or> trace s1 = trace s @ [Mkdir ''resized'', Stat ''resized'']" and
    F: "fs s1 = fs s \<or> fs s1 = (fs s)\<lparr>entries := entries (fs s) @ [(''resized'', Dir)]\<rparr>"
    by blast
  from T have S: "spawned (trace s1) = spawned (trace s)"
    by (auto simp: spawned_append)
  from F have L: "?cmds (map fst (entries (fs s1))) = ?cmds (map fst (entries (fs s)))"
    using resized_no_candidate by auto
  show ?thesis
  proof (cases "r = Returned () \<and> readable (fs s1)")
    case True
    let ?s2 = "s1\<lparr>trace := trace s1 @ [Listdir ''.'']\<rparr>"
    from True M have C: "compress ex s = for_img ex (map Path (map fst (entries (fs s1)))) ?s2"
      by (simp add: compress_unfold)
    from for_img_spawned [of ex "map Path (map fst (entries (fs s1)))" ?s2]
    obtain k where "spawned (trace (snd (compress ex s))) =
        spawned (trace ?s2) @ take k (?cmds (map fst (entries (fs s1))))"
      unfolding C commands_of_names by blast
    then have "spawned (trace (snd (compress ex s))) =
        spawned (trace s) @ take k (?cmds (map fst (entries (fs s))))"
      using S L by (simp add: spawned_append)
    then show ?thesis by blast
  next
    case False
    with M R have "spawned (trace (snd (compress ex s))) = spawned (trace s1)"
      by (auto simp: compress_unfold spawned_append)
    with S have "spawned (trace (snd (compress ex s))) =
        spawned (trace s) @ take 0 (?cmds (map fst (entries (fs s))))"
      by simp
    then show ?thesis by blast
  qed
qed

lemma compress_exits:
  assumes ex: "\<forall>a f. \<exists>rc f'. ex a f = (Exited rc, f')"
    and ok: "fst (mkdir output_dir True s) = Returned ()"
    and rd: "readable (fs s)"
  shows "fst (compress ex s) = Returned () \<and>
     spawned (trace (snd (compress ex s))) =
     spawned (trace s) @
     map (\<lambda>n. [''magick'', n, ''-resize'', ''512x512>'', ''resized/'' @ n])
       (filter (\<lambda>n. lower (suffix (Path n)) \<in> set extensions) (map fst (entries (fs s))))"
proof -
  let ?cmds = "\<lambda>ns. map (\<lambda>n. [''magick'', n, ''-resize'', ''512x512>'', ''resized/'' @ n])
               (filter (\<lambda>n. lower (suffix (Path n)) \<in> set extensions) ns)"
  from mkdir_result [of s] ok obtain s1 where
    M: "mkdir output_dir True s = (Returned (), s1)" and
    T: "trace s1 = trace s @ [Mkdir ''resized''] \<or> trace s1 = trace s @ [Mkdir ''resized'', Stat ''resized'']" and
    F: "fs s1 = fs s \<or> fs s1 = (fs s)\<lparr>entries := entries (fs s) @ [(''resized'', Dir)]\<rparr>"
    by auto
  from T have S: "spawned (trace s1) = spawned (trace s)"
    by (auto simp: spawned_append)
  from F have L: "?cmds (map fst (entries (fs s1))) = ?cmds (map fst (entries (fs s)))"
    using resized_no_candidate by auto
  from F rd have "readable (fs s1)" by auto
  let ?s2 = "s1\<lparr>trace := trace s1 @ [Listdir ''.'']\<rparr>"
  from \<open>readable (fs s1)\<close> M
  have C: "compress ex s = for_img ex (map Path (map fst (entries (fs s1)))) ?s2"
    by (simp add: compress_unfold)
  from for_img_exits [OF ex, of "map Path (map fst (entries (fs s1)))" ?s2]
  have "fst (compress ex s) = Returned () \<and>
      spawned (trace (snd (compress ex s))) = spawned (trace ?s2) @ ?cmds (map fst (entries (fs s1)))"
    unfolding C commands_of_names by simp
  then show ?thesis using S L by (simp add: spawned_append)
qed

lemma for_img_fs:
  assumes "\<forall>a f. snd (ex a f) = f"
  shows "fs (snd (for_img ex imgs s)) = fs s"
proof (induction imgs arbitrary: s)
  case Nil
  show ?case by simp
next
  case (Cons img imgs)
  have R: "fs (snd (run ex a False s)) = fs s" for a s
    using assms [rule_format, of a "fs s"]
    by (auto simp: run_def emit_def Let_def split: prod.splits proc.splits)
  show ?case
  proof (cases "lower (suffix img) \<in> set extensions")
    case False
    with Cons.IH [of s] show ?thesis by simp
  next
    case True
    let ?a = "[''magick'', str img, ''-resize'', ''512x512>'', str (truediv output_dir (name img))]"
    obtain r s1 where Q: "run ex ?a False s = (r, s1)" by (cases "run ex ?a False s")
    with R [of ?a s] have "fs s1 = fs s" by simp
    with True Q Cons.IH [of s1] show ?thesis
      by (cases r) simp_all
  qed
qed

lemma compress_fs:
  assumes "\<forall>a f. snd (ex a f) = f"
  shows "fs (snd (compress ex s)) = fs s \<or>
     fs (snd (compress ex s)) = (fs s)\<lparr>entries := entries (fs s) @ [(''resized'', Dir)]\<rparr>"
proof -
  from mkdir_result [of s] obtain r s1 where
    M: "mkdir output_dir True s = (r, s1)" and
    R: "r = Returned () \<or> (\<exists>e. r = Raised e)" and
    F: "fs s1 = fs s \<or> fs s1 = (fs s)\<lparr>entries := entries (fs s) @ [(''resized'', Dir)]\<rparr>"
    by blast
  have "fs (snd (compress ex s)) = fs s1"
    using M R for_img_fs [OF assms] by (auto simp: compress_unfold)
  with F show ?thesis by simp
qed

lemma compress_trace:
  "\<exists>pre evs. trace (snd (compress ex s)) = trace s @ Mkdir ''resized'' # pre @ evs \<and>
     pre \<in> {[], [Stat ''resized''], [Listdir ''.''], [Stat ''resized'', Listdir ''.'']} \<and>
     sequential evs"
proof -
  from mkdir_result [of s] obtain r s1 where
    M: "mkdir output_dir True s = (r, s1)" and
    R: "r = Returned () \<or> (\<exists>e. r = Raised e)" and
    T: "trace s1 = trace s @ [Mkdir ''resized''] \<or> trace s1 = trace s @ [Mkdir ''resized'', Stat ''resized'']"
    by blast
  from T obtain p0 where P0: "trace s1 = trace s @ Mkdir ''resized'' # p0" "p0 = [] \<or> p0 = [Stat ''resized'']"
    by auto
  show ?thesis
  proof (cases "r = Returned ()")
    case False
    with M R have "trace (snd (compress ex s)) = trace s @ Mkdir ''resized'' # p0 @ []"
      using P0 by (auto simp: compress_unfold)
    moreover have "sequential []" by simp
    ultimately show ?thesis using P0(2) by blast
  next
    case True
    let ?s2 = "s1\<lparr>trace := trace s1 @ [Listdir ''.'']\<rparr>"
    show ?thesis
    proof (cases "readable (fs s1)")
      case False
      with True M have "trace (snd (compress ex s)) = trace s @ Mkdir ''resized'' # (p0 @ [Listdir ''.'']) @ []"
        using P0 by (simp add: compress_unfold)
      moreover have "sequential []" by simp
      moreover have "p0 @ [Listdir ''.''] \<in> {[], [Stat ''resized''], [Listdir ''.''], [Stat ''resized'', Listdir ''.'']}"
        using P0(2) by auto
      ultimately show ?thesis by blast
    next
      case rd: True
      from for_img_trace [of ex "map Path (map fst (entries (fs s1)))" ?s2]
      obtain evs where E: "trace (snd (for_img ex (map Path (map fst (entries (fs s1)))) ?s2)) = trace ?s2 @ evs"
        "sequential evs" by blast
      from True rd M E(1) have "trace (snd (compress ex s)) = trace s @ Mkdir ''resized'' # (p0 @ [Listdir ''.'']) @ evs"
        using P0 by (simp add: compress_unfold)
      moreover have "p0 @ [Listdir ''.''] \<in> {[], [Stat ''resized''], [Listdir ''.''], [Stat ''resized'', Listdir ''.'']}"
        using P0(2) by auto
      ultimately show ?thesis using E(2) by blast
    qed
  qed
qed

lemma for_img_Returned:
  "fst (for_img ex imgs s) = Returned () \<Longrightarrow>
   spawned (trace (snd (for_img ex imgs s))) =
     spawned (trace s) @
     map (\<lambda>img. [''magick'', str img, ''-resize'', ''512x512>'', str (truediv output_dir (name img))])
       (filter (\<lambda>img. lower (suffix img) \<in> set extensions) imgs)"
proof (induction imgs arbitrary: s)
  case Nil
  show ?case by simp
next
  case (Cons img imgs)
  show ?case
  proof (cases "lower (suffix img) \<in> set extensions")
    case False
    with Cons show ?thesis by simp
  next
    case True
    let ?a = "[''magick'', str img, ''-resize'', ''512x512>'', str (truediv output_dir (name img))]"
    obtain r s1 where R: "run ex ?a False s = (r, s1)" by (cases "run ex ?a False s")
    show ?thesis
    proof (cases r)
      case (Returned rc)
      with True R Cons.prems have "fst (for_img ex imgs s1) = Returned ()" by simp
      from Cons.IH [OF this] True R Returned run_Returned [of ex ?a False s rc s1]
      show ?thesis by (simp add: spawned_append)
    next
      case (Raised e)
      with True R Cons.prems show ?thesis by simp
    next
      case Blocked
      with True R Cons.prems show ?thesis by simp
    qed
  qed
qed

lemma compress_Returned:
  assumes "fst (compress ex s) = Returned ()"
  shows "spawned (trace (snd (compress ex s))) =
     spawned (trace s) @
     map (\<lambda>n. [''magick'', n, ''-resize'', ''512x512>'', ''resized/'' @ n])
       (filter (\<lambda>n. lower (suffix (Path n)) \<in> set extensions) (map fst (entries (fs s))))"
proof -
  let ?cmds = "\<lambda>ns. map (\<lambda>n. [''magick'', n, ''-resize'', ''512x512>'', ''resized/'' @ n])
               (filter (\<lambda>n. lower (suffix (Path n)) \<in> set extensions) ns)"
  from mkdir_result [of s] obtain r s1 where
    M: "mkdir output_dir True s = (r, s1)" and
    R: "r = Returned () \<or> (\<exists>e. r = Raised e)" and
    T: "trace s1 = trace s @ [Mkdir ''resized''] \<or> trace s1 = trace s @ [Mkdir ''resized'', Stat ''resized'']" and
    F: "fs s1 = fs s \<or> fs s1 = (fs s)\<lparr>entries := entries (fs s) @ [(''resized'', Dir)]\<rparr>"
    by blast
  from T have S: "spawned (trace s1) = spawned (trace s)"
    by (auto simp: spawned_append)
  from F have L: "?cmds (map fst (entries (fs s1))) = ?cmds (map fst (entries (fs s)))"
    using resized_no_candidate by auto
  let ?s2 = "s1\<lparr>trace := trace s1 @ [Listdir ''.'']\<rparr>"
  from assms M R have C: "compress ex s = for_img ex (map Path (map fst (entries (fs s1)))) ?s2"
    by (auto simp: compress_unfold split: if_splits)
  with assms have "fst (for_img ex (map Path (map fst (entries (fs s1)))) ?s2) = Returned ()"
    by simp
  from for_img_Returned [OF this]
  have "spawned (trace (snd (compress ex s))) = spawned (trace ?s2) @ ?cmds (map fst (entries (fs s1)))"
    unfolding C commands_of_names .
  then show ?thesis using S L by (simp add: spawned_append)
qed

lemma listed_append: "listed (xs @ ys) = listed xs @ listed ys"
  by (induction xs rule: listed.induct) simp_all

lemma sequential_not_listed: "sequential evs \<Longrightarrow> listed evs = []"
  by (induction evs rule: sequential.induct) simp_all

lemmas script_defs =
  compress_def for_img.simps input_dir_def output_dir_def extensions_def
  mkdir_def os_mkdir_def is_dir_def iterdir_def run_def emit_def
  Path_def truediv_def str_def name_def suffix_def rfind_def lower_def lower_char_def
  unavailable_def exits_with_def hangs_def photos_def two_images_def occupied_def albums_def
  dotted_def Let_def

lemma source_of_commands:
  "map source_arg (map (\<lambda>n. [''magick'', n, ''-resize'', ''512x512>'', ''resized/'' @ n]) ns) = ns"
  by (induction ns) simp_all

lemma extensions_set: "set extensions = {''.jpg'', ''.jpeg'', ''.png'', ''.webp'', ''.bmp''}"
  by (simp add: extensions_def)

lemma child_of_input_dir: "truediv input_dir n = Path n"
  by (simp add: input_dir_parts truediv_def)

section \<open>The claims\<close>

text \<open>
  Throughout, a run starts from a directory \<open>f\<close> with an empty log,
  \<open>\<lparr>fs = f, trace = []\<rparr>\<close>. An external tool that is started and exits on every
  invocation, with whatever return code, is an \<open>ex\<close> with
  \<open>\<forall>a d. \<exists>rc d'. ex a d = (Exited rc, d')\<close>.
\<close>

subsection \<open>C2: which entries are candidates\<close>

text \<open>
  Claim C2. An entry of the base directory is selected as a candidate exactly when its
  lowercased final suffix is one of \<^verbatim>\<open>.jpg .jpeg .png .webp .bmp\<close>. In any run, the sources
  handed to the tool are an initial part of the entry names that pass this test, in
  listing order; in a run that returns, they are all of them. In the directory holding
  \<^verbatim>\<open>a.jpg\<close>, \<^verbatim>\<open>b.PNG\<close>, \<^verbatim>\<open>c.txt\<close> and \<^verbatim>\<open>notes.md\<close> these are \<^verbatim>\<open>a.jpg\<close> and \<^verbatim>\<open>b.PNG\<close>.
\<close>

theorem selected_by_suffix:
  "(\<exists>k. map source_arg (spawned (trace (snd (compress ex \<lparr>fs = f, trace = []\<rparr>)))) =
      take k (filter (\<lambda>n. lower (suffix (truediv input_dir n)) \<in> {''.jpg'', ''.jpeg'', ''.png'', ''.webp'', ''.bmp''})
                (map fst (entries f)))) \<and>
   (fst (compress ex \<lparr>fs = f, trace = []\<rparr>) = Returned () \<longrightarrow>
      map source_arg (spawned (trace (snd (compress ex \<lparr>fs = f, trace = []\<rparr>)))) =
      filter (\<lambda>n. lower (suffix (truediv input_dir n)) \<in> {''.jpg'', ''.jpeg'', ''.png'', ''.webp'', ''.bmp''})
        (map fst (entries f))) \<and>
   (fst (compress ex \<lparr>fs = photos, trace = []\<rparr>) = Returned () \<longrightarrow>
      map source_arg (spawned (trace (snd (compress ex \<lparr>fs = photos, trace = []\<rparr>)))) = [''a.jpg'', ''b.PNG''])"
proof -
  let ?cmd = "\<lambda>n. [''magick'', n, ''-resize'', ''512x512>'', ''resized/'' @ n]"
  let ?sel = "\<lambda>d. filter (\<lambda>n. lower (suffix (Path n)) \<in> set extensions) (map fst (entries d))"
  from compress_spawned [of ex "\<lparr>fs = f, trace = []\<rparr>"] obtain k where
    "spawned (trace (snd (compress ex \<lparr>fs = f, trace = []\<rparr>))) = take k (map ?cmd (?sel f))" by auto
  then have "map source_arg (spawned (trace (snd (compress ex \<lparr>fs = f, trace = []\<rparr>)))) =
      take k (map source_arg (map ?cmd (?sel f)))"
    by (simp only: take_map)
  then have A: "\<exists>k. map source_arg (spawned (trace (snd (compress ex \<lparr>fs = f, trace = []\<rparr>)))) = take k (?sel f)"
    unfolding source_of_commands by blast
  have G: "map source_arg (spawned (trace (snd (compress ex \<lparr>fs = d, trace = []\<rparr>)))) = ?sel d"
    if "fst (compress ex \<lparr>fs = d, trace = []\<rparr>) = Returned ()" for d
  proof -
    from compress_Returned [OF that]
    have "spawned (trace (snd (compress ex \<lparr>fs = d, trace = []\<rparr>))) = map ?cmd (?sel d)"
      by simp
    then show ?thesis by (simp only: source_of_commands)
  qed
  have P: "?sel photos = [''a.jpg'', ''b.PNG'']"
    by (simp add: photos_def Path_def suffix_def rfind_def name_def lower_def lower_char_def extensions_def)
  from A G [of f] G [of photos] P show ?thesis
    unfolding child_of_input_dir extensions_set [symmetric] by simp
qed

theorem selected_by_suffix_witness:
  "fst (compress (exits_with 1) \<lparr>fs = photos, trace = []\<rparr>) = Returned () \<and>
   filter (\<lambda>n. lower (suffix (truediv input_dir n)) \<in> {''.jpg'', ''.jpeg'', ''.png'', ''.webp'', ''.bmp''})
     (map fst (entries photos)) = [''a.jpg'', ''b.PNG''] \<and>
   map source_arg (spawned (trace (snd (compress (exits_with 1) \<lparr>fs = photos, trace = []\<rparr>)))) =
     [''a.jpg'', ''b.PNG'']"
proof -
  have 1: "fst (compress (exits_with 1) \<lparr>fs = photos, trace = []\<rparr>) = Returned ()"
    by (simp add: script_defs)
  have 2: "filter (\<lambda>n. lower (suffix (truediv input_dir n)) \<in> {''.jpg'', ''.jpeg'', ''.png'', ''.webp'', ''.bmp''})
        (map fst (entries photos)) = [''a.jpg'', ''b.PNG'']"
    by (simp add: photos_def child_of_input_dir Path_def suffix_def rfind_def name_def lower_def lower_char_def)
  show ?thesis
    using selected_by_suffix [of "exits_with 1" photos] 1 2 by simp
qed

subsection \<open>C3: the command line of a conversion\<close>

text \<open>
  Claim C3. Every command the script invokes is the tool name \<^verbatim>\<open>magick\<close> followed by four
  tokens: the candidate's path, \<^verbatim>\<open>-resize\<close>, \<^verbatim>\<open>512x512>\<close>, and the output directory joined
  with the candidate's own file name. The commands of a run are an initial part of the
  list of these commands over the candidates, whatever the tool does; and for a candidate
  \<open>n\<close> the two paths print as \<open>n\<close> and \<^verbatim>\<open>resized/\<close>\<open>n\<close>.
\<close>

theorem command_line:
  "(\<exists>k. spawned (trace (snd (compress ex \<lparr>fs = f, trace = []\<rparr>))) =
      take k (map (\<lambda>n. [''magick'', n, ''-resize'', ''512x512>'', ''resized/'' @ n])
        (filter (\<lambda>n. lower (suffix (truediv input_dir n)) \<in> set extensions) (map fst (entries f))))) \<and>
   (lower (suffix (truediv input_dir n)) \<in> set extensions \<longrightarrow>
      str (truediv input_dir n) = n \<and>
      str (truediv output_dir (name (truediv input_dir n))) = ''resized/'' @ n)"
proof -
  have "str (Path n) = n \<and> str (truediv output_dir (name (Path n))) = ''resized/'' @ n"
    if "lower (suffix (Path n)) \<in> set extensions"
  proof -
    from that have "Path n = [n]" by (rule Path_candidate)
    then show ?thesis by (simp add: output_dir_parts str_def name_def truediv_def)
  qed
  then show ?thesis
    using compress_spawned [of ex "\<lparr>fs = f, trace = []\<rparr>"]
    by (simp add: child_of_input_dir)
qed

theorem command_line_witness:
  "lower (suffix (truediv input_dir ''b.PNG'')) \<in> set extensions \<and>
   str (truediv input_dir ''b.PNG'') = ''b.PNG'' \<and>
   str (truediv output_dir (name (truediv input_dir ''b.PNG''))) = ''resized/b.PNG'' \<and>
   (\<exists>k. spawned (trace (snd (compress (exits_with 0) \<lparr>fs = photos, trace = []\<rparr>))) =
      take k [[''magick'', ''a.jpg'', ''-resize'', ''512x512>'', ''resized/a.jpg''],
              [''magick'', ''b.PNG'', ''-resize'', ''512x512>'', ''resized/b.PNG'']]) \<and>
   spawned (trace (snd (compress (exits_with 0) \<lparr>fs = photos, trace = []\<rparr>))) =
     [[''magick'', ''a.jpg'', ''-resize'', ''512x512>'', ''resized/a.jpg''],
      [''magick'', ''b.PNG'', ''-resize'', ''512x512>'', ''resized/b.PNG'']]"
proof -
  have 1: "lower (suffix (truediv input_dir ''b.PNG'')) \<in> set extensions"
    by (simp add: child_of_input_dir Path_def suffix_def rfind_def name_def lower_def lower_char_def extensions_def)
  have 2: "filter (\<lambda>n. lower (suffix (truediv input_dir n)) \<in> set extensions) (map fst (entries photos)) =
      [''a.jpg'', ''b.PNG'']"
    by (simp add: photos_def child_of_input_dir Path_def suffix_def rfind_def name_def lower_def lower_char_def extensions_def)
  have 3: "spawned (trace (snd (compress (exits_with 0) \<lparr>fs = photos, trace = []\<rparr>))) =
     [[''magick'', ''a.jpg'', ''-resize'', ''512x512>'', ''resized/a.jpg''],
      [''magick'', ''b.PNG'', ''-resize'', ''512x512>'', ''resized/b.PNG'']]"
    by (simp add: script_defs)
  show ?thesis
    using command_line [of "exits_with 0" photos "''b.PNG''"] 1 2 3 by simp
qed

subsection \<open>C1: when the external tool fails\<close>

lemma for_img_unlaunched:
  assumes ex: "\<forall>a d. \<exists>d'. ex a d = (NotLaunched e, d')"
  shows "spawned (trace (snd (for_img ex imgs s))) =
      spawned (trace s) @
      take 1 (map (\<lambda>img. [''magick'', str img, ''-resize'', ''512x512>'', str (truediv output_dir (name img))])
                (filter (\<lambda>img. lower (suffix img) \<in> set extensions) imgs)) \<and>
    (filter (\<lambda>img. lower (suffix img) \<in> set extensions) imgs \<noteq> [] \<longrightarrow>
      fst (for_img ex imgs s) = Raised e)"
proof (induction imgs arbitrary: s)
  case Nil
  show ?case by simp
next
  case (Cons img imgs)
  let ?a = "[''magick'', str img, ''-resize'', ''512x512>'', str (truediv output_dir (name img))]"
  show ?case
  proof (cases "lower (suffix img) \<in> set extensions")
    case False
    with Cons.IH [of s] show ?thesis by simp
  next
    case True
    from ex obtain d' where "ex ?a (fs s) = (NotLaunched e, d')" by blast
    then have "run ex ?a False s = (Raised e, s\<lparr>fs := d', trace := trace s @ [Spawn ?a]\<rparr>)"
      by (simp add: run_def emit_def)
    with True show ?thesis by (simp add: spawned_append)
  qed
qed

lemma compress_unlaunched:
  assumes ex: "\<forall>a d. \<exists>d'. ex a d = (NotLaunched e, d')"
    and ok: "fst (mkdir output_dir True s) = Returned ()"
    and rd: "readable (fs s)"
  shows "spawned (trace (snd (compress ex s))) =
      spawned (trace s) @
      take 1 (map (\<lambda>n. [''magick'', n, ''-resize'', ''512x512>'', ''resized/'' @ n])
                (filter (\<lambda>n. lower (suffix (Path n)) \<in> set extensions) (map fst (entries (fs s))))) \<and>
    (filter (\<lambda>n. lower (suffix (Path n)) \<in> set extensions) (map fst (entries (fs s))) \<noteq> [] \<longrightarrow>
      fst (compress ex s) = Raised e)"
proof -
  let ?sel = "filter (\<lambda>n. lower (suffix (Path n)) \<in> set extensions)"
  let ?cmds = "\<lambda>ns. map (\<lambda>n. [''magick'', n, ''-resize'', ''512x512>'', ''resized/'' @ n]) (?sel ns)"
  from mkdir_result [of s] ok obtain s1 where
    M: "mkdir output_dir True s = (Returned (), s1)" and
    T: "trace s1 = trace s @ [Mkdir ''resized''] \<or> trace s1 = trace s @ [Mkdir ''resized'', Stat ''resized'']" and
    F: "fs s1 = fs s \<or> fs s1 = (fs s)\<lparr>entries := entries (fs s) @ [(''resized'', Dir)]\<rparr>"
    by auto
  from T have S: "spawned (trace s1) = spawned (trace s)"
    by (auto simp: spawned_append)
  from F have L: "?sel (map fst (entries (fs s1))) = ?sel (map fst (entries (fs s)))"
    using resized_no_candidate by auto
  from F rd have "readable (fs s1)" by auto
  let ?s2 = "s1\<lparr>trace := trace s1 @ [Listdir ''.'']\<rparr>"
  from \<open>readable (fs s1)\<close> M
  have C: "compress ex s = for_img ex (map Path (map fst (entries (fs s1)))) ?s2"
    by (simp add: compress_unfold)
  have N: "filter (\<lambda>img. lower (suffix img) \<in> set extensions) (map Path ns) \<noteq> [] \<longleftrightarrow> ?sel ns \<noteq> []" for ns
    by (simp add: filter_map comp_def)
  from for_img_unlaunched [OF ex, of "map Path (map fst (entries (fs s1)))" ?s2]
  have "spawned (trace (snd (compress ex s))) = spawned (trace ?s2) @ take 1 (?cmds (map fst (entries (fs s1)))) \<and>
      (?sel (map fst (entries (fs s1))) \<noteq> [] \<longrightarrow> fst (compress ex s) = Raised e)"
    unfolding C commands_of_names N by simp
  then show ?thesis unfolding L using S by (simp add: spawned_append)
qed

text \<open>
  Claim C1, as stated, fails. \<^verbatim>\<open>subprocess.run\<close> ignores the return code of a child that
  ran, but it raises when the child cannot be started, and the script catches nothing.
  With no \<^verbatim>\<open>magick\<close> installed and \<^verbatim>\<open>a.jpg\<close>, \<^verbatim>\<open>b.PNG\<close> in the directory, the run ends with
  \<^verbatim>\<open>FileNotFoundError\<close> at \<^verbatim>\<open>a.jpg\<close>; \<^verbatim>\<open>b.PNG\<close> is a candidate and its conversion is never
  attempted.
\<close>

theorem unavailable_tool_stops_the_run:
  "fst (compress unavailable \<lparr>fs = two_images, trace = []\<rparr>) = Raised FileNotFoundError \<and>
   spawned (trace (snd (compress unavailable \<lparr>fs = two_images, trace = []\<rparr>))) =
     [[''magick'', ''a.jpg'', ''-resize'', ''512x512>'', ''resized/a.jpg'']] \<and>
   ''b.PNG'' \<in> set (filter (\<lambda>n. lower (suffix (truediv input_dir n)) \<in> set extensions)
                     (map fst (entries two_images))) \<and>
   ''b.PNG'' \<notin> set (map source_arg
                     (spawned (trace (snd (compress unavailable \<lparr>fs = two_images, trace = []\<rparr>)))))"
  by (simp add: script_defs)

text \<open>
  Claim C1, amended. If the tool is started and exits on every invocation, with whatever
  return code, the script never looks at the code: the run returns normally and the
  conversion of every candidate is attempted, in listing order. If the tool cannot be
  started, the exception of the first candidate's invocation ends the run, and no later
  candidate is attempted.
\<close>

theorem failures_of_the_tool:
  "((\<forall>a d. \<exists>rc d'. ex a d = (Exited rc, d')) \<and>
    fst (mkdir output_dir True \<lparr>fs = f, trace = []\<rparr>) = Returned () \<and> readable f \<longrightarrow>
      fst (compress ex \<lparr>fs = f, trace = []\<rparr>) = Returned () \<and>
      map source_arg (spawned (trace (snd (compress ex \<lparr>fs = f, trace = []\<rparr>)))) =
        filter (\<lambda>n. lower (suffix (truediv input_dir n)) \<in> set extensions) (map fst (entries f))) \<and>
   ((\<forall>a d. \<exists>d'. ex a d = (NotLaunched e, d')) \<and>
    fst (mkdir output_dir True \<lparr>fs = f, trace = []\<rparr>) = Returned () \<and> readable f \<and>
    filter (\<lambda>n. lower (suffix (truediv input_dir n)) \<in> set extensions) (map fst (entries f)) \<noteq> [] \<longrightarrow>
      fst (compress ex \<lparr>fs = f, trace = []\<rparr>) = Raised e \<and>
      map source_arg (spawned (trace (snd (compress ex \<lparr>fs = f, trace = []\<rparr>)))) =
        take 1 (filter (\<lambda>n. lower (suffix (truediv input_dir n)) \<in> set extensions) (map fst (entries f))))"
proof -
  let ?s = "\<lparr>fs = f, trace = []\<rparr>"
  let ?sel = "filter (\<lambda>n. lower (suffix (Path n)) \<in> set extensions) (map fst (entries f))"
  let ?cmd = "\<lambda>n. [''magick'', n, ''-resize'', ''512x512>'', ''resized/'' @ n]"
  have A: "fst (compress ex ?s) = Returned () \<and> map source_arg (spawned (trace (snd (compress ex ?s)))) = ?sel"
    if "\<forall>a d. \<exists>rc d'. ex a d = (Exited rc, d')"
      and "fst (mkdir output_dir True ?s) = Returned ()" and "readable f"
  proof -
    from that have "fst (compress ex ?s) = Returned () \<and> spawned (trace (snd (compress ex ?s))) = map ?cmd ?sel"
      using compress_exits [of ex ?s] by simp
    then show ?thesis by (simp only: source_of_commands)
  qed
  have B: "fst (compress ex ?s) = Raised e \<and> map source_arg (spawned (trace (snd (compress ex ?s)))) = take 1 ?sel"
    if "\<forall>a d. \<exists>d'. ex a d = (NotLaunched e, d')"
      and "fst (mkdir output_dir True ?s) = Returned ()" and "readable f" and "?sel \<noteq> []"
  proof -
    from that have "fst (compress ex ?s) = Raised e \<and>
        spawned (trace (snd (compress ex ?s))) = take 1 (map ?cmd ?sel)"
      using compress_unlaunched [of ex e ?s] by simp
    then have "fst (compress ex ?s) = Raised e \<and>
        map source_arg (spawned (trace (snd (compress ex ?s)))) = take 1 (map source_arg (map ?cmd ?sel))"
      by (simp only: take_map)
    then show ?thesis by (simp only: source_of_commands)
  qed
  from A B show ?thesis unfolding child_of_input_dir by blast
qed

theorem failures_of_the_tool_witness:
  "(\<forall>a d. \<exists>rc d'. exits_with 1 a d = (Exited rc, d')) \<and>
   (\<forall>a d. \<exists>d'. unavailable a d = (NotLaunched FileNotFoundError, d')) \<and>
   fst (mkdir output_dir True \<lparr>fs = two_images, trace = []\<rparr>) = Returned () \<and> readable two_images \<and>
   filter (\<lambda>n. lower (suffix (truediv input_dir n)) \<in> set extensions) (map fst (entries two_images)) =
     [''a.jpg'', ''b.PNG''] \<and>
   fst (compress (exits_with 1) \<lparr>fs = two_images, trace = []\<rparr>) = Returned () \<and>
   map source_arg (spawned (trace (snd (compress (exits_with 1) \<lparr>fs = two_images, trace = []\<rparr>)))) =
     [''a.jpg'', ''b.PNG''] \<and>
   fst (compress unavailable \<lparr>fs = two_images, trace = []\<rparr>) = Raised FileNotFoundError \<and>
   map source_arg (spawned (trace (snd (compress unavailable \<lparr>fs = two_images, trace = []\<rparr>)))) =
     [''a.jpg'']"
proof -
  have 1: "\<forall>a d. \<exists>rc d'. exits_with 1 a d = (Exited rc, d')"
    by (simp add: exits_with_def)
  have 2: "\<forall>a d. \<exists>d'. unavailable a d = (NotLaunched FileNotFoundError, d')"
    by (simp add: unavailable_def)
  have 3: "fst (mkdir output_dir True \<lparr>fs = two_images, trace = []\<rparr>) = Returned ()"
    by (simp add: mkdir_resized two_images_def)
  have 4: "readable two_images" by (simp add: two_images_def)
  have 5: "filter (\<lambda>n. lower (suffix (truediv input_dir n)) \<in> set extensions) (map fst (entries two_images)) =
      [''a.jpg'', ''b.PNG'']"
    by (simp add: two_images_def child_of_input_dir Path_def suffix_def rfind_def name_def lower_def lower_char_def
        extensions_def)
  show ?thesis
    using failures_of_the_tool [of "exits_with 1" two_images FileNotFoundError]
      failures_of_the_tool [of unavailable two_images FileNotFoundError] 1 2 3 4 5
    by simp
qed

subsection \<open>C4 and C5: the output directory\<close>

lemma mkdir_again:
  "fst (mkdir output_dir True s) = Returned () \<Longrightarrow> fs s' = fs (snd (mkdir output_dir True s)) \<Longrightarrow>
   fst (mkdir output_dir True s') = Returned () \<and> fs (snd (mkdir output_dir True s')) = fs s'"
  by (auto simp: mkdir_resized split: option.splits if_splits)

lemma mkdir_fails_iff:
  "(\<exists>e. fst (mkdir output_dir True s) = Raised e) \<longleftrightarrow>
   (case map_of (entries (fs s)) ''resized'' of
      None \<Rightarrow> \<not> writable (fs s)
    | Some k \<Rightarrow> k \<noteq> Dir \<and> k \<noteq> LinkToDir)"
  by (simp add: mkdir_resized split: option.splits)

lemma compress_mkdir_failed:
  "fst (mkdir output_dir True s) = Raised e \<Longrightarrow> compress ex s = mkdir output_dir True s"
  by (cases "mkdir output_dir True s") (simp add: compress_unfold)

lemma mkdir_spawned: "spawned (trace (snd (mkdir output_dir True s))) = spawned (trace s)"
  using mkdir_result [of s] by (auto simp: spawned_append)

lemma compress_fs_pure:
  assumes "\<forall>a d. snd (ex a d) = d"
  shows "fs (snd (compress ex s)) = fs (snd (mkdir output_dir True s))"
proof -
  from mkdir_result [of s] obtain r s1 where
    M: "mkdir output_dir True s = (r, s1)" and
    R: "r = Returned () \<or> (\<exists>e. r = Raised e)"
    by blast
  show ?thesis
    using M R for_img_fs [OF assms] by (auto simp: compress_unfold)
qed

lemma compress_Returned_mkdir:
  "fst (compress ex s) = Returned () \<Longrightarrow> fst (mkdir output_dir True s) = Returned ()"
  using mkdir_result [of s] compress_mkdir_failed [of s _ ex] by auto

lemma mkdir_listed: "listed (trace (snd (mkdir output_dir True s))) = listed (trace s)"
  using mkdir_result [of s] by (auto simp: listed_append)

lemma mkdir_leaves_directory:
  "fst (mkdir output_dir True s) = Returned () \<Longrightarrow>
   map_of (entries (fs (snd (mkdir output_dir True s)))) ''resized'' = Some Dir \<or>
   map_of (entries (fs (snd (mkdir output_dir True s)))) ''resized'' = Some LinkToDir"
  by (auto simp: mkdir_resized map_add_def split: option.splits if_splits)

lemma mkdir_existing:
  "map_of (entries (fs s)) ''resized'' = Some Dir \<or> map_of (entries (fs s)) ''resized'' = Some LinkToDir \<Longrightarrow>
   fst (mkdir output_dir True s) = Returned () \<and> fs (snd (mkdir output_dir True s)) = fs s"
  by (auto simp: mkdir_resized)

lemma mkdir_readable: "readable (fs (snd (mkdir output_dir True s))) = readable (fs s)"
  using mkdir_result [of s] by auto

lemma compress_listed:
  assumes "fst (mkdir output_dir True s) = Returned ()"
  shows "listed (trace (snd (compress ex s))) = listed (trace s) @ [''.'']"
proof -
  obtain s1 where M: "mkdir output_dir True s = (Returned (), s1)"
    using assms by (cases "mkdir output_dir True s") simp
  with mkdir_listed [of s] have L: "listed (trace s1) = listed (trace s)" by simp
  let ?s2 = "s1\<lparr>trace := trace s1 @ [Listdir ''.'']\<rparr>"
  show ?thesis
  proof (cases "readable (fs s1)")
    case False
    with M L show ?thesis by (simp add: compress_unfold listed_append)
  next
    case True
    from for_img_trace [of ex "map Path (map fst (entries (fs s1)))" ?s2] obtain evs where
      E: "trace (snd (for_img ex (map Path (map fst (entries (fs s1)))) ?s2)) = trace ?s2 @ evs"
        "sequential evs" by blast
    from True M E(1) have "trace (snd (compress ex s)) = (trace s1 @ [Listdir ''.'']) @ evs"
      by (simp add: compress_unfold)
    with L sequential_not_listed [OF E(2)] show ?thesis
      by (simp add: listed_append)
  qed
qed

lemma compress_Returned_readable:
  assumes "fst (compress ex s) = Returned ()"
  shows "readable (fs s)"
proof -
  from mkdir_result [of s] obtain r s1 where
    M: "mkdir output_dir True s = (r, s1)" and
    R: "r = Returned () \<or> (\<exists>e. r = Raised e)"
    by blast
  from assms M R have "readable (fs s1)"
    by (auto simp: compress_unfold split: if_splits)
  with M mkdir_readable [of s] show ?thesis by simp
qed

lemma compress_again:
  assumes ex: "\<forall>a d. \<exists>rc. ex a d = (Exited rc, d)"
    and ret: "fst (compress ex s) = Returned ()"
  shows "fst (compress ex (snd (compress ex s))) = Returned () \<and>
     fs (snd (compress ex (snd (compress ex s)))) = fs (snd (compress ex s))"
proof -
  let ?s' = "snd (compress ex s)"
  from ex have pure: "\<forall>a d. snd (ex a d) = d" by (metis snd_conv)
  from ex have exits: "\<forall>a d. \<exists>rc d'. ex a d = (Exited rc, d')" by blast
  from ret have M: "fst (mkdir output_dir True s) = Returned ()"
    by (rule compress_Returned_mkdir)
  from pure have F: "fs ?s' = fs (snd (mkdir output_dir True s))"
    by (rule compress_fs_pure)
  from mkdir_again [OF M F] have M': "fst (mkdir output_dir True ?s') = Returned ()"
    and F': "fs (snd (mkdir output_dir True ?s')) = fs ?s'" by simp_all
  from ret have "readable (fs s)" by (rule compress_Returned_readable)
  with F mkdir_readable [of s] have "readable (fs ?s')" by simp
  with compress_exits [OF exits M'] have "fst (compress ex ?s') = Returned ()" by simp
  moreover from compress_fs_pure [OF pure, of ?s'] F' have "fs (snd (compress ex ?s')) = fs ?s'"
    by simp
  ultimately show ?thesis by simp
qed

text \<open>
  Claim C4. Creating the output directory is idempotent, and the script does not fail
  because \<^verbatim>\<open>resized\<close> is already there. When \<^verbatim>\<open>resized\<close> is a directory (or a link to one), or
  is absent from a directory that takes new entries, a run gets past the creation to the
  listing, and after the step \<^verbatim>\<open>resized\<close> is a directory; with an existing \<^verbatim>\<open>resized\<close>, a
  readable directory and a tool that exits, the run returns. A second run after a run
  that returned, with a tool that exits and leaves the directory alone, returns too and
  changes nothing. The step alone, done twice, returns twice and changes nothing the
  second time. Creation raises exactly when there is no directory \<^verbatim>\<open>resized\<close> and none can
  be made: the name is taken by an entry that is not a directory (nor a link to one), or
  it is free and the working directory takes no new entries. The exception then ends the
  run, before the listing and before any conversion.
\<close>

theorem output_directory_creation:
  "(fst (mkdir output_dir True s) = Returned () \<longrightarrow>
      fst (mkdir output_dir True (snd (mkdir output_dir True s))) = Returned () \<and>
      fs (snd (mkdir output_dir True (snd (mkdir output_dir True s)))) = fs (snd (mkdir output_dir True s))) \<and>
   ((\<forall>a d. snd (ex a d) = d) \<and> fst (compress ex s) = Returned () \<longrightarrow>
      fst (mkdir output_dir True (snd (compress ex s))) = Returned ()) \<and>
   ((\<exists>e. fst (mkdir output_dir True s) = Raised e) \<longleftrightarrow>
      (case map_of (entries (fs s)) ''resized'' of
         None \<Rightarrow> \<not> writable (fs s)
       | Some k \<Rightarrow> k \<noteq> Dir \<and> k \<noteq> LinkToDir)) \<and>
   (fst (mkdir output_dir True s) = Raised e \<longrightarrow>
      fst (compress ex s) = Raised e \<and> spawned (trace (snd (compress ex s))) = spawned (trace s)) \<and>
   ((\<forall>a d. \<exists>rc. ex a d = (Exited rc, d)) \<and> fst (compress ex s) = Returned () \<longrightarrow>
      fst (compress ex (snd (compress ex s))) = Returned () \<and>
      fs (snd (compress ex (snd (compress ex s)))) = fs (snd (compress ex s))) \<and>
   ((map_of (entries (fs s)) ''resized'' = Some Dir \<or> map_of (entries (fs s)) ''resized'' = Some LinkToDir) \<and>
    readable (fs s) \<and> (\<forall>a d. \<exists>rc d'. ex a d = (Exited rc, d')) \<longrightarrow>
      fst (compress ex s) = Returned ()) \<and>
   ((case map_of (entries (fs s)) ''resized'' of
       None \<Rightarrow> writable (fs s)
     | Some k \<Rightarrow> k = Dir \<or> k = LinkToDir) \<longrightarrow>
      listed (trace (snd (compress ex s))) = listed (trace s) @ [''.''] \<and>
      (map_of (entries (fs (snd (mkdir output_dir True s)))) ''resized'' = Some Dir \<or>
       map_of (entries (fs (snd (mkdir output_dir True s)))) ''resized'' = Some LinkToDir)) \<and>
   ((case map_of (entries (fs s)) ''resized'' of
       None \<Rightarrow> writable (fs s)
     | Some k \<Rightarrow> k = Dir \<or> k = LinkToDir) \<and> (\<forall>a d. snd (ex a d) = d) \<longrightarrow>
      map_of (entries (fs (snd (compress ex s)))) ''resized'' = Some Dir \<or>
      map_of (entries (fs (snd (compress ex s)))) ''resized'' = Some LinkToDir) \<and>
   ((case map_of (entries (fs s)) ''resized'' of
       None \<Rightarrow> \<not> writable (fs s)
     | Some k \<Rightarrow> k \<noteq> Dir \<and> k \<noteq> LinkToDir) \<longrightarrow>
      (\<exists>e'. fst (compress ex s) = Raised e') \<and>
      listed (trace (snd (compress ex s))) = listed (trace s) \<and>
      spawned (trace (snd (compress ex s))) = spawned (trace s))"
proof -
  let ?good = "case map_of (entries (fs s)) ''resized'' of
       None \<Rightarrow> writable (fs s) | Some k \<Rightarrow> k = Dir \<or> k = LinkToDir"
  let ?bad = "case map_of (entries (fs s)) ''resized'' of
       None \<Rightarrow> \<not> writable (fs s) | Some k \<Rightarrow> k \<noteq> Dir \<and> k \<noteq> LinkToDir"
  have A: "fst (mkdir output_dir True (snd (mkdir output_dir True s))) = Returned () \<and>
      fs (snd (mkdir output_dir True (snd (mkdir output_dir True s)))) = fs (snd (mkdir output_dir True s))"
    if "fst (mkdir output_dir True s) = Returned ()"
    using mkdir_again [OF that, of "snd (mkdir output_dir True s)"] by simp
  have B: "fst (mkdir output_dir True (snd (compress ex s))) = Returned ()"
    if "\<forall>a d. snd (ex a d) = d" and "fst (compress ex s) = Returned ()"
  proof -
    from that(2) have "fst (mkdir output_dir True s) = Returned ()"
      by (rule compress_Returned_mkdir)
    moreover from that(1) have "fs (snd (compress ex s)) = fs (snd (mkdir output_dir True s))"
      by (rule compress_fs_pure)
    ultimately show ?thesis using mkdir_again by blast
  qed
  have D: "fst (compress ex s) = Raised e \<and> spawned (trace (snd (compress ex s))) = spawned (trace s)"
    if "fst (mkdir output_dir True s) = Raised e"
    using that compress_mkdir_failed [OF that, of ex] mkdir_spawned [of s] by simp
  have E: "fst (compress ex (snd (compress ex s))) = Returned () \<and>
      fs (snd (compress ex (snd (compress ex s)))) = fs (snd (compress ex s))"
    if "\<forall>a d. \<exists>rc. ex a d = (Exited rc, d)" and "fst (compress ex s) = Returned ()"
    using that by (rule compress_again)
  have F: "fst (compress ex s) = Returned ()"
    if "map_of (entries (fs s)) ''resized'' = Some Dir \<or> map_of (entries (fs s)) ''resized'' = Some LinkToDir"
      and "readable (fs s)" and "\<forall>a d. \<exists>rc d'. ex a d = (Exited rc, d')"
    using compress_exits [OF that(3) _ that(2)] mkdir_existing [OF that(1)] by simp
  have G0: "fst (mkdir output_dir True s) = Returned ()" if ?good
    using that by (auto simp: mkdir_resized split: option.splits)
  have G: "listed (trace (snd (compress ex s))) = listed (trace s) @ [''.''] \<and>
      (map_of (entries (fs (snd (mkdir output_dir True s)))) ''resized'' = Some Dir \<or>
       map_of (entries (fs (snd (mkdir output_dir True s)))) ''resized'' = Some LinkToDir)"
    if ?good
    using compress_listed [OF G0 [OF that], of ex] mkdir_leaves_directory [OF G0 [OF that]] by simp
  have H: "map_of (entries (fs (snd (compress ex s)))) ''resized'' = Some Dir \<or>
      map_of (entries (fs (snd (compress ex s)))) ''resized'' = Some LinkToDir"
    if ?good and "\<forall>a d. snd (ex a d) = d"
    using compress_fs_pure [OF that(2), of s] mkdir_leaves_directory [OF G0 [OF that(1)]] by simp
  have I: "(\<exists>e'. fst (compress ex s) = Raised e') \<and>
      listed (trace (snd (compress ex s))) = listed (trace s) \<and>
      spawned (trace (snd (compress ex s))) = spawned (trace s)"
    if ?bad
  proof -
    from that mkdir_fails_iff [of s] obtain e' where R: "fst (mkdir output_dir True s) = Raised e'"
      by blast
    from compress_mkdir_failed [OF R, of ex] R mkdir_spawned [of s] mkdir_listed [of s]
    show ?thesis by simp
  qed
  from A B D E F G H I mkdir_fails_iff [of s] show ?thesis by blast
qed

theorem output_directory_creation_witness:
  "fst (mkdir output_dir True \<lparr>fs = photos, trace = []\<rparr>) = Returned () \<and>
   fst (mkdir output_dir True (snd (mkdir output_dir True \<lparr>fs = photos, trace = []\<rparr>))) = Returned () \<and>
   fs (snd (mkdir output_dir True (snd (mkdir output_dir True \<lparr>fs = photos, trace = []\<rparr>)))) =
     fs (snd (mkdir output_dir True \<lparr>fs = photos, trace = []\<rparr>)) \<and>
   (\<forall>a d. snd (exits_with 0 a d) = d) \<and>
   fst (compress (exits_with 0) \<lparr>fs = photos, trace = []\<rparr>) = Returned () \<and>
   fst (mkdir output_dir True (snd (compress (exits_with 0) \<lparr>fs = photos, trace = []\<rparr>))) = Returned () \<and>
   map_of (entries occupied) ''resized'' = Some File \<and>
   fst (mkdir output_dir True \<lparr>fs = occupied, trace = []\<rparr>) = Raised FileExistsError \<and>
   fst (compress (exits_with 0) \<lparr>fs = occupied, trace = []\<rparr>) = Raised FileExistsError \<and>
   spawned (trace (snd (compress (exits_with 0) \<lparr>fs = occupied, trace = []\<rparr>))) = [] \<and>
   listed (trace (snd (compress (exits_with 0) \<lparr>fs = occupied, trace = []\<rparr>))) = [] \<and>
   (\<forall>a d. \<exists>rc. exits_with 0 a d = (Exited rc, d)) \<and>
   fst (compress (exits_with 0) (snd (compress (exits_with 0) \<lparr>fs = photos, trace = []\<rparr>))) = Returned () \<and>
   fs (snd (compress (exits_with 0) (snd (compress (exits_with 0) \<lparr>fs = photos, trace = []\<rparr>)))) =
     fs (snd (compress (exits_with 0) \<lparr>fs = photos, trace = []\<rparr>)) \<and>
   map_of (entries photos) ''resized'' = None \<and> writable photos \<and>
   listed (trace (snd (compress (exits_with 0) \<lparr>fs = photos, trace = []\<rparr>))) = [''.''] \<and>
   map_of (entries (fs (snd (compress (exits_with 0) \<lparr>fs = photos, trace = []\<rparr>)))) ''resized'' = Some Dir \<and>
   map_of (entries albums) ''resized'' = Some Dir \<and> readable albums \<and>
   (\<forall>a d. \<exists>rc d'. exits_with 0 a d = (Exited rc, d')) \<and>
   fst (compress (exits_with 0) \<lparr>fs = albums, trace = []\<rparr>) = Returned ()"
proof -
  have 1: "fst (mkdir output_dir True \<lparr>fs = photos, trace = []\<rparr>) = Returned ()"
    by (simp add: mkdir_resized photos_def)
  have 2: "\<forall>a d. snd (exits_with 0 a d) = d" "\<forall>a d. \<exists>rc. exits_with 0 a d = (Exited rc, d)"
    "\<forall>a d. \<exists>rc d'. exits_with 0 a d = (Exited rc, d')"
    by (simp_all add: exits_with_def)
  have 3: "fst (compress (exits_with 0) \<lparr>fs = photos, trace = []\<rparr>) = Returned ()"
    by (simp add: script_defs)
  have 4: "map_of (entries occupied) ''resized'' = Some File"
    by (simp add: occupied_def)
  have 5: "fst (mkdir output_dir True \<lparr>fs = occupied, trace = []\<rparr>) = Raised FileExistsError"
    by (simp add: mkdir_resized occupied_def)
  have 6: "map_of (entries photos) ''resized'' = None" "writable photos"
    by (simp_all add: photos_def)
  have 7: "map_of (entries albums) ''resized'' = Some Dir" "readable albums"
    by (simp_all add: albums_def)
  have 8: "map_of (entries (fs (snd (compress (exits_with 0) \<lparr>fs = photos, trace = []\<rparr>)))) ''resized'' \<noteq>
      Some LinkToDir"
    by (simp add: script_defs)
  show ?thesis
    using output_directory_creation [of "\<lparr>fs = photos, trace = []\<rparr>" "exits_with 0" FileExistsError]
      output_directory_creation [of "\<lparr>fs = occupied, trace = []\<rparr>" "exits_with 0" FileExistsError]
      output_directory_creation [of "\<lparr>fs = albums, trace = []\<rparr>" "exits_with 0" FileExistsError]
      1 2 3 4 5 6 7 8
    by simp
qed

lemma sequential_no_Mkdir: "sequential evs \<Longrightarrow> Mkdir p \<notin> set evs"
  by (induction evs rule: sequential.induct) simp_all

text \<open>
  Claim C5. The request to create \<^verbatim>\<open>resized\<close> is the first thing a run does and is made
  once: the log starts with it and holds no other. Every conversion therefore comes after
  it; and when any conversion is started at all, that step had returned normally and left
  \<^verbatim>\<open>resized\<close> a directory (or a link to one).
\<close>

theorem output_directory_first:
  "\<exists>rest. trace (snd (compress ex \<lparr>fs = f, trace = []\<rparr>)) = Mkdir ''resized'' # rest \<and>
     (\<forall>p. Mkdir p \<notin> set rest) \<and>
     (spawned rest \<noteq> [] \<longrightarrow>
        fst (mkdir output_dir True \<lparr>fs = f, trace = []\<rparr>) = Returned () \<and>
        (map_of (entries (fs (snd (mkdir output_dir True \<lparr>fs = f, trace = []\<rparr>)))) ''resized'' = Some Dir \<or>
         map_of (entries (fs (snd (mkdir output_dir True \<lparr>fs = f, trace = []\<rparr>)))) ''resized'' = Some LinkToDir))"
proof -
  let ?s = "\<lparr>fs = f, trace = []\<rparr>"
  from compress_trace [of ex ?s] obtain pre evs where
    T: "trace (snd (compress ex ?s)) = Mkdir ''resized'' # pre @ evs" and
    P: "pre \<in> {[], [Stat ''resized''], [Listdir ''.''], [Stat ''resized'', Listdir ''.'']}" and
    E: "sequential evs"
    by auto
  from P have "\<forall>p. Mkdir p \<notin> set pre" by auto
  with E have N: "\<forall>p. Mkdir p \<notin> set (pre @ evs)"
    using sequential_no_Mkdir by auto
  have S: "spawned (trace (snd (compress ex ?s))) = spawned (pre @ evs)"
    unfolding T by simp
  have "fst (mkdir output_dir True ?s) = Returned () \<and>
      (map_of (entries (fs (snd (mkdir output_dir True ?s)))) ''resized'' = Some Dir \<or>
       map_of (entries (fs (snd (mkdir output_dir True ?s)))) ''resized'' = Some LinkToDir)"
    if "spawned (pre @ evs) \<noteq> []"
  proof -
    have R: "fst (mkdir output_dir True ?s) = Returned ()"
    proof (rule ccontr)
      assume "fst (mkdir output_dir True ?s) \<noteq> Returned ()"
      with mkdir_result [of ?s] obtain e where F: "fst (mkdir output_dir True ?s) = Raised e"
        by auto
      then have "spawned (trace (snd (compress ex ?s))) = []"
        using compress_mkdir_failed [OF F, of ex] mkdir_spawned [of ?s] by simp
      with S that show False by simp
    qed
    then show ?thesis
      by (auto simp: mkdir_resized map_add_def split: option.splits if_splits)
  qed
  with T N show ?thesis by blast
qed

theorem output_directory_first_witness:
  "trace (snd (compress (exits_with 0) \<lparr>fs = two_images, trace = []\<rparr>)) =
     [Mkdir ''resized'', Listdir ''.'',
      Spawn [''magick'', ''a.jpg'', ''-resize'', ''512x512>'', ''resized/a.jpg''], Exit 0,
      Spawn [''magick'', ''b.PNG'', ''-resize'', ''512x512>'', ''resized/b.PNG''], Exit 0] \<and>
   fst (mkdir output_dir True \<lparr>fs = two_images, trace = []\<rparr>) = Returned () \<and>
   map_of (entries (fs (snd (mkdir output_dir True \<lparr>fs = two_images, trace = []\<rparr>)))) ''resized'' = Some Dir"
proof -
  have 1: "trace (snd (compress (exits_with 0) \<lparr>fs = two_images, trace = []\<rparr>)) =
     [Mkdir ''resized'', Listdir ''.'',
      Spawn [''magick'', ''a.jpg'', ''-resize'', ''512x512>'', ''resized/a.jpg''], Exit 0,
      Spawn [''magick'', ''b.PNG'', ''-resize'', ''512x512>'', ''resized/b.PNG''], Exit 0]"
    by (simp add: script_defs)
  have 2: "map_of (entries (fs (snd (mkdir output_dir True \<lparr>fs = two_images, trace = []\<rparr>)))) ''resized'' \<noteq>
      Some LinkToDir"
    by (simp add: mkdir_resized two_images_def)
  from output_directory_first [of "exits_with 0" two_images] 1 2 show ?thesis
    by auto
qed

subsection \<open>C6: one child process at a time, in listing order\<close>

lemma for_img_Blocked:
  "fst (for_img ex imgs s) = Blocked \<Longrightarrow> \<exists>tr a. trace (snd (for_img ex imgs s)) = tr @ [Spawn a]"
proof (induction imgs arbitrary: s)
  case Nil
  then show ?case by simp
next
  case (Cons img imgs)
  show ?case
  proof (cases "lower (suffix img) \<in> set extensions")
    case False
    with Cons show ?thesis by simp
  next
    case True
    let ?a = "[''magick'', str img, ''-resize'', ''512x512>'', str (truediv output_dir (name img))]"
    obtain r s1 where R: "run ex ?a False s = (r, s1)" by (cases "run ex ?a False s")
    show ?thesis
    proof (cases r)
      case (Returned rc)
      with True R Cons.prems have "fst (for_img ex imgs s1) = Blocked" by simp
      from Cons.IH [OF this] True R Returned show ?thesis by simp
    next
      case (Raised e)
      with True R Cons.prems show ?thesis by simp
    next
      case Blocked
      with R have "trace s1 = trace s @ [Spawn ?a]"
        using run_not_Returned [of ex ?a s r s1] by simp
      with True R Blocked show ?thesis by simp
    qed
  qed
qed

lemma compress_Blocked:
  assumes "fst (compress ex s) = Blocked"
  shows "\<exists>tr a. trace (snd (compress ex s)) = tr @ [Spawn a]"
proof -
  from mkdir_result [of s] obtain r s1 where
    M: "mkdir output_dir True s = (r, s1)" and
    R: "r = Returned () \<or> (\<exists>e. r = Raised e)"
    by blast
  let ?s2 = "s1\<lparr>trace := trace s1 @ [Listdir ''.'']\<rparr>"
  from assms M R have C: "compress ex s = for_img ex (map Path (map fst (entries (fs s1)))) ?s2"
    by (auto simp: compress_unfold split: if_splits)
  with assms for_img_Blocked [of ex "map Path (map fst (entries (fs s1)))" ?s2]
  show ?thesis by simp
qed

text \<open>
  Claim C6. Processing is sequential. After the preparation, the log of a run is a log of
  conversions in which each child is started, then waited for, before the next is
  started. The source arguments of the children are an initial part of the candidates in
  listing order, so no candidate is skipped, repeated or taken out of order; a run that
  returns has started exactly one child per candidate. The script waits for a child
  without bound: a run that is stuck is stuck in the child it started last.
\<close>

theorem one_child_at_a_time:
  "(\<exists>pre evs. trace (snd (compress ex \<lparr>fs = f, trace = []\<rparr>)) = pre @ evs \<and>
      spawned pre = [] \<and> sequential evs) \<and>
   (\<exists>k. map source_arg (spawned (trace (snd (compress ex \<lparr>fs = f, trace = []\<rparr>)))) =
      take k (filter (\<lambda>n. lower (suffix (truediv input_dir n)) \<in> set extensions) (map fst (entries f)))) \<and>
   (fst (compress ex \<lparr>fs = f, trace = []\<rparr>) = Returned () \<longrightarrow>
      spawned (trace (snd (compress ex \<lparr>fs = f, trace = []\<rparr>))) =
        map (\<lambda>n. [''magick'', n, ''-resize'', ''512x512>'', ''resized/'' @ n])
          (filter (\<lambda>n. lower (suffix (truediv input_dir n)) \<in> set extensions) (map fst (entries f)))) \<and>
   (fst (compress ex \<lparr>fs = f, trace = []\<rparr>) = Blocked \<longrightarrow>
      (\<exists>tr a. trace (snd (compress ex \<lparr>fs = f, trace = []\<rparr>)) = tr @ [Spawn a]))"
proof -
  let ?s = "\<lparr>fs = f, trace = []\<rparr>"
  let ?sel = "filter (\<lambda>n. lower (suffix (Path n)) \<in> set extensions) (map fst (entries f))"
  let ?cmd = "\<lambda>n. [''magick'', n, ''-resize'', ''512x512>'', ''resized/'' @ n]"
  from compress_trace [of ex ?s] obtain pre evs where
    T: "trace (snd (compress ex ?s)) = Mkdir ''resized'' # pre @ evs" and
    P: "pre \<in> {[], [Stat ''resized''], [Listdir ''.''], [Stat ''resized'', Listdir ''.'']}" and
    E: "sequential evs"
    by auto
  from P have "spawned (Mkdir ''resized'' # pre) = []" by auto
  with T E have A: "\<exists>pre evs. trace (snd (compress ex ?s)) = pre @ evs \<and> spawned pre = [] \<and> sequential evs"
    by (metis append_Cons)
  from compress_spawned [of ex ?s] obtain k where
    "spawned (trace (snd (compress ex ?s))) = take k (map ?cmd ?sel)" by auto
  then have "map source_arg (spawned (trace (snd (compress ex ?s)))) = take k (map source_arg (map ?cmd ?sel))"
    by (simp only: take_map)
  then have B: "\<exists>k. map source_arg (spawned (trace (snd (compress ex ?s)))) = take k ?sel"
    unfolding source_of_commands by blast
  have C: "spawned (trace (snd (compress ex ?s))) = map ?cmd ?sel"
    if "fst (compress ex ?s) = Returned ()"
    using compress_Returned [OF that] by simp
  from A B C compress_Blocked [of ex ?s] show ?thesis
    unfolding child_of_input_dir by blast
qed

theorem one_child_at_a_time_witness:
  "fst (compress (exits_with 0) \<lparr>fs = two_images, trace = []\<rparr>) = Returned () \<and>
   spawned (trace (snd (compress (exits_with 0) \<lparr>fs = two_images, trace = []\<rparr>))) =
     [[''magick'', ''a.jpg'', ''-resize'', ''512x512>'', ''resized/a.jpg''],
      [''magick'', ''b.PNG'', ''-resize'', ''512x512>'', ''resized/b.PNG'']] \<and>
   fst (compress hangs \<lparr>fs = two_images, trace = []\<rparr>) = Blocked \<and>
   (\<exists>tr a. trace (snd (compress hangs \<lparr>fs = two_images, trace = []\<rparr>)) = tr @ [Spawn a]) \<and>
   trace (snd (compress hangs \<lparr>fs = two_images, trace = []\<rparr>)) =
     [Mkdir ''resized'', Listdir ''.'',
      Spawn [''magick'', ''a.jpg'', ''-resize'', ''512x512>'', ''resized/a.jpg'']]"
proof -
  have 1: "fst (compress (exits_with 0) \<lparr>fs = two_images, trace = []\<rparr>) = Returned ()"
    by (simp add: script_defs)
  have 4: "filter (\<lambda>n. lower (suffix (truediv input_dir n)) \<in> set extensions) (map fst (entries two_images)) =
      [''a.jpg'', ''b.PNG'']"
    by (simp add: two_images_def child_of_input_dir Path_def suffix_def rfind_def name_def lower_def lower_char_def
        extensions_def)
  have 5: "fst (compress hangs \<lparr>fs = two_images, trace = []\<rparr>) = Blocked"
    by (simp add: script_defs)
  have 6: "trace (snd (compress hangs \<lparr>fs = two_images, trace = []\<rparr>)) =
     [Mkdir ''resized'', Listdir ''.'',
      Spawn [''magick'', ''a.jpg'', ''-resize'', ''512x512>'', ''resized/a.jpg'']]"
    by (simp add: script_defs)
  have 7: "spawned (trace (snd (compress (exits_with 0) \<lparr>fs = two_images, trace = []\<rparr>))) =
     [[''magick'', ''a.jpg'', ''-resize'', ''512x512>'', ''resized/a.jpg''],
      [''magick'', ''b.PNG'', ''-resize'', ''512x512>'', ''resized/b.PNG'']]"
    using one_child_at_a_time [of "exits_with 0" two_images] 1 4 by simp
  have 8: "\<exists>tr a. trace (snd (compress hangs \<lparr>fs = two_images, trace = []\<rparr>)) = tr @ [Spawn a]"
    using one_child_at_a_time [of hangs two_images] 5 by blast
  from 1 5 6 7 8 show ?thesis by blast
qed

subsection \<open>C7: the scan does not descend\<close>

text \<open>
  Claim C7. The scan is not recursive. Every source handed to the tool is the name of a
  direct entry of the working directory, and the only directory a run ever lists is the
  working directory itself. The name \<^verbatim>\<open>resized\<close> has no suffix, so the output directory is
  never a candidate, whether it was there before or has just been made. The filter looks
  at names only: a subdirectory whose name ends in an image suffix passes it.
\<close>

theorem scan_is_flat:
  "set (map source_arg (spawned (trace (snd (compress ex \<lparr>fs = f, trace = []\<rparr>))))) \<subseteq> fst ` set (entries f) \<and>
   ''resized'' \<notin> set (map source_arg (spawned (trace (snd (compress ex \<lparr>fs = f, trace = []\<rparr>))))) \<and>
   lower (suffix (truediv input_dir ''resized'')) \<notin> set extensions \<and>
   (listed (trace (snd (compress ex \<lparr>fs = f, trace = []\<rparr>))) = [] \<or>
    listed (trace (snd (compress ex \<lparr>fs = f, trace = []\<rparr>))) = [''.'']) \<and>
   (fst (compress ex \<lparr>fs = f, trace = []\<rparr>) = Returned () \<and>
    (n, Dir) \<in> set (entries f) \<and> lower (suffix (truediv input_dir n)) \<in> set extensions \<longrightarrow>
      n \<in> set (map source_arg (spawned (trace (snd (compress ex \<lparr>fs = f, trace = []\<rparr>))))))"
proof -
  let ?s = "\<lparr>fs = f, trace = []\<rparr>"
  let ?sel = "filter (\<lambda>n. lower (suffix (Path n)) \<in> set extensions) (map fst (entries f))"
  let ?cmd = "\<lambda>n. [''magick'', n, ''-resize'', ''512x512>'', ''resized/'' @ n]"
  from compress_spawned [of ex ?s] obtain k where
    "spawned (trace (snd (compress ex ?s))) = take k (map ?cmd ?sel)" by auto
  then have "map source_arg (spawned (trace (snd (compress ex ?s)))) = take k (map source_arg (map ?cmd ?sel))"
    by (simp only: take_map)
  then have K: "map source_arg (spawned (trace (snd (compress ex ?s)))) = take k ?sel"
    unfolding source_of_commands .
  have "set (take k ?sel) \<subseteq> set ?sel" by (rule set_take_subset)
  with K have S: "set (map source_arg (spawned (trace (snd (compress ex ?s))))) \<subseteq> set ?sel"
    by simp
  then have A: "set (map source_arg (spawned (trace (snd (compress ex ?s))))) \<subseteq> fst ` set (entries f)"
    by auto
  have "''resized'' \<notin> set ?sel" using resized_no_candidate by simp
  with S have B: "''resized'' \<notin> set (map source_arg (spawned (trace (snd (compress ex ?s)))))"
    by blast
  from compress_trace [of ex ?s] obtain pre evs where
    T: "trace (snd (compress ex ?s)) = Mkdir ''resized'' # pre @ evs" and
    P: "pre \<in> {[], [Stat ''resized''], [Listdir ''.''], [Stat ''resized'', Listdir ''.'']}" and
    E: "sequential evs"
    by auto
  from P have "listed pre = [] \<or> listed pre = [''.'']" by auto
  then have C: "listed (trace (snd (compress ex ?s))) = [] \<or> listed (trace (snd (compress ex ?s))) = [''.'']"
    unfolding T using sequential_not_listed [OF E] by (simp add: listed_append)
  have D: "n \<in> set (map source_arg (spawned (trace (snd (compress ex ?s)))))"
    if "fst (compress ex ?s) = Returned ()"
      and "(n, Dir) \<in> set (entries f)" and "lower (suffix (Path n)) \<in> set extensions"
  proof -
    from that(1) have "spawned (trace (snd (compress ex ?s))) = map ?cmd ?sel"
      using compress_Returned [of ex ?s] by simp
    then have "map source_arg (spawned (trace (snd (compress ex ?s)))) = ?sel"
      by (simp only: source_of_commands)
    moreover from that(2,3) have "n \<in> set ?sel" by force
    ultimately show ?thesis by simp
  qed
  from A B C D resized_no_candidate show ?thesis
    unfolding child_of_input_dir by blast
qed

theorem scan_is_flat_witness:
  "fst (compress (exits_with 0) \<lparr>fs = albums, trace = []\<rparr>) = Returned () \<and>
   (''resized'', Dir) \<in> set (entries albums) \<and>
   (''album.png'', Dir) \<in> set (entries albums) \<and>
   lower (suffix (truediv input_dir ''album.png'')) \<in> set extensions \<and>
   ''album.png'' \<in> set (map source_arg (spawned (trace (snd (compress (exits_with 0) \<lparr>fs = albums, trace = []\<rparr>))))) \<and>
   ''resized'' \<notin> set (map source_arg (spawned (trace (snd (compress (exits_with 0) \<lparr>fs = albums, trace = []\<rparr>))))) \<and>
   map source_arg (spawned (trace (snd (compress (exits_with 0) \<lparr>fs = albums, trace = []\<rparr>)))) =
     [''a.jpg'', ''album.png''] \<and>
   listed (trace (snd (compress (exits_with 0) \<lparr>fs = albums, trace = []\<rparr>))) = [''.'']"
proof -
  have 1: "fst (compress (exits_with 0) \<lparr>fs = albums, trace = []\<rparr>) = Returned ()"
    by (simp add: script_defs)
  have 3: "(''resized'', Dir) \<in> set (entries albums)" "(''album.png'', Dir) \<in> set (entries albums)"
    by (simp_all add: albums_def)
  have 4: "lower (suffix (truediv input_dir ''album.png'')) \<in> set extensions"
    by (simp add: child_of_input_dir Path_def suffix_def rfind_def name_def lower_def lower_char_def extensions_def)
  have 5: "map source_arg (spawned (trace (snd (compress (exits_with 0) \<lparr>fs = albums, trace = []\<rparr>)))) =
     [''a.jpg'', ''album.png'']"
    by (simp add: script_defs)
  have 6: "listed (trace (snd (compress (exits_with 0) \<lparr>fs = albums, trace = []\<rparr>))) = [''.'']"
    by (simp add: script_defs)
  have 7: "''album.png'' \<in> set (map source_arg (spawned (trace (snd (compress (exits_with 0) \<lparr>fs = albums, trace = []\<rparr>)))))"
    using scan_is_flat [of "exits_with 0" albums "''album.png''"] 1 3 4 by blast
  have 8: "''resized'' \<notin> set (map source_arg (spawned (trace (snd (compress (exits_with 0) \<lparr>fs = albums, trace = []\<rparr>)))))"
    using scan_is_flat [of "exits_with 0" albums "''album.png''"] by blast
  from 1 3 4 5 6 7 8 show ?thesis by blast
qed

subsection \<open>C9: only the final suffix counts\<close>

lemma rfind_from_absent: "c \<notin> set xs \<Longrightarrow> rfind_from i found xs c = found"
  by (induction xs arbitrary: i) auto

lemma rfind_from_last:
  "c \<notin> set ext \<Longrightarrow> rfind_from i found (stem @ c # ext) c = i + int (length stem)"
  by (induction stem arbitrary: i found) (simp_all add: rfind_from_absent)

lemma rfind_last: "c \<notin> set ext \<Longrightarrow> rfind (stem @ c # ext) c = int (length stem)"
  by (simp add: rfind_def rfind_from_last)

lemma suffix_of_dotted_name:
  assumes "stem \<noteq> []" and "ext \<noteq> []" and "CHR ''.'' \<notin> set ext"
  shows "suffix (Path (stem @ ''.'' @ ext)) = ''.'' @ ext"
proof -
  from assms(1) have P: "Path (stem @ ''.'' @ ext) = [stem @ CHR ''.'' # ext]"
    by (cases stem) (simp_all add: Path_def)
  from assms(3) have R: "rfind (stem @ CHR ''.'' # ext) CHR ''.'' = int (length stem)"
    by (rule rfind_last)
  from assms(1,2) have "0 < length stem" "0 < length ext" by simp_all
  then show ?thesis
    unfolding P by (simp add: suffix_def name_def R Let_def)
qed

lemma suffix_of_leading_dot:
  assumes "CHR ''.'' \<notin> set ext"
  shows "suffix (Path (''.'' @ ext)) = []"
proof (cases "ext = []")
  case True
  then show ?thesis by (simp add: Path_def suffix_def rfind_def name_def)
next
  case False
  then have P: "Path (''.'' @ ext) = [CHR ''.'' # ext]" by (simp add: Path_def)
  from assms have "rfind (CHR ''.'' # ext) CHR ''.'' = 0"
    using rfind_last [of "CHR ''.''" ext "[]"] by simp
  then show ?thesis unfolding P by (simp add: suffix_def name_def Let_def)
qed

lemma run_spawned: "spawned (trace (snd (run ex a c s))) = spawned (trace s) @ [a]"
  using run_trace [of ex a c s] by (auto simp: spawned_append)

lemma for_img_attempts:
  "filter (\<lambda>img. lower (suffix img) \<in> set extensions) imgs \<noteq> [] \<Longrightarrow>
   spawned (trace (snd (for_img ex imgs s))) \<noteq> spawned (trace s)"
proof (induction imgs arbitrary: s)
  case Nil
  then show ?case by simp
next
  case (Cons img imgs)
  show ?case
  proof (cases "lower (suffix img) \<in> set extensions")
    case False
    with Cons show ?thesis by simp
  next
    case True
    let ?a = "[''magick'', str img, ''-resize'', ''512x512>'', str (truediv output_dir (name img))]"
    obtain r s1 where R: "run ex ?a False s = (r, s1)" by (cases "run ex ?a False s")
    with run_spawned [of ex ?a False s] have S: "spawned (trace s1) = spawned (trace s) @ [?a]"
      by simp
    from for_img_spawned [of ex imgs s1] obtain k where
      K: "spawned (trace (snd (for_img ex imgs s1))) = spawned (trace s1) @
         take k (map (\<lambda>img. [''magick'', str img, ''-resize'', ''512x512>'', str (truediv output_dir (name img))])
               (filter (\<lambda>img. lower (suffix img) \<in> set extensions) imgs))"
      by blast
    show ?thesis
      using True R S K by (cases r) simp_all
  qed
qed

lemma compress_dotted:
  "spawned (trace (snd (compress ex \<lparr>fs = dotted, trace = []\<rparr>))) =
     [[''magick'', ''archive.tar.png'', ''-resize'', ''512x512>'', ''resized/archive.tar.png'']]"
proof -
  let ?s = "\<lparr>fs = dotted, trace = []\<rparr>"
  let ?s1 = "\<lparr>fs = dotted\<lparr>entries := entries dotted @ [(''resized'', Dir)]\<rparr>, trace = [Mkdir ''resized'']\<rparr>"
  let ?s2 = "?s1\<lparr>trace := trace ?s1 @ [Listdir ''.'']\<rparr>"
  let ?imgs = "map Path (map fst (entries (fs ?s1)))"
  have M: "mkdir output_dir True ?s = (Returned (), ?s1)"
    by (simp add: mkdir_resized dotted_def)
  have "readable (fs ?s1)" by (simp add: dotted_def)
  with M have C: "compress ex ?s = for_img ex ?imgs ?s2"
    by (simp add: compress_unfold)
  have F: "filter (\<lambda>n. lower (suffix (Path n)) \<in> set extensions) (map fst (entries dotted)) = [''archive.tar.png'']"
    by (simp add: dotted_def Path_def suffix_def rfind_def name_def lower_def lower_char_def extensions_def)
  have F1: "filter (\<lambda>img. lower (suffix img) \<in> set extensions) ?imgs \<noteq> []"
    by (simp add: dotted_def Path_def suffix_def rfind_def name_def lower_def lower_char_def extensions_def)
  from compress_spawned [of ex ?s] obtain k where
    K: "spawned (trace (snd (compress ex ?s))) =
      take k [[''magick'', ''archive.tar.png'', ''-resize'', ''512x512>'', ''resized/archive.tar.png'']]"
    unfolding state.simps F by auto
  from for_img_attempts [OF F1, of ex ?s2] have "spawned (trace (snd (compress ex ?s))) \<noteq> []"
    unfolding C by simp
  with K show ?thesis by (cases k) simp_all
qed

text \<open>
  Claim C9. Selection looks at the final dot-separated suffix of the name and at nothing
  before it: the suffix of \<open>stem.ext\<close> is \<open>.ext\<close> whatever dots \<open>stem\<close> holds, and a name
  that is only a dot and an extension has no suffix. So in a directory holding \<^verbatim>\<open>.jpg\<close>,
  \<^verbatim>\<open>photo.jpg.txt\<close> and \<^verbatim>\<open>archive.tar.png\<close>, the one conversion a run starts, with any tool,
  is that of \<^verbatim>\<open>archive.tar.png\<close>.
\<close>

theorem final_suffix_only:
  "(stem \<noteq> [] \<and> ext \<noteq> [] \<and> CHR ''.'' \<notin> set ext \<longrightarrow>
      suffix (truediv input_dir (stem @ ''.'' @ ext)) = ''.'' @ ext) \<and>
   (CHR ''.'' \<notin> set ext \<longrightarrow> suffix (truediv input_dir (''.'' @ ext)) = []) \<and>
   map fst (entries dotted) = [''.jpg'', ''photo.jpg.txt'', ''archive.tar.png''] \<and>
   spawned (trace (snd (compress ex \<lparr>fs = dotted, trace = []\<rparr>))) =
     [[''magick'', ''archive.tar.png'', ''-resize'', ''512x512>'', ''resized/archive.tar.png'']]"
proof -
  have "map fst (entries dotted) = [''.jpg'', ''photo.jpg.txt'', ''archive.tar.png'']"
    by (simp add: dotted_def)
  then show ?thesis
    using suffix_of_dotted_name [of stem ext] suffix_of_leading_dot [of ext] compress_dotted [of ex]
    unfolding child_of_input_dir by blast
qed

theorem final_suffix_only_witness:
  "''archive.tar'' \<noteq> [] \<and> ''png'' \<noteq> [] \<and> CHR ''.'' \<notin> set ''png'' \<and> CHR ''.'' \<notin> set ''jpg'' \<and>
   suffix (truediv input_dir ''archive.tar.png'') = ''.png'' \<and>
   suffix (truediv input_dir ''.jpg'') = [] \<and>
   suffix (truediv input_dir ''photo.jpg.txt'') = ''.txt'' \<and>
   spawned (trace (snd (compress unavailable \<lparr>fs = dotted, trace = []\<rparr>))) =
     [[''magick'', ''archive.tar.png'', ''-resize'', ''512x512>'', ''resized/archive.tar.png'']]"
  using final_suffix_only [of "''archive.tar''" "''png''" unavailable]
    final_suffix_only [of "''photo.jpg''" "''txt''" unavailable]
    final_suffix_only [of "''x''" "''jpg''" unavailable]
  by simp

subsection \<open>C10: the inputs are left as they are\<close>

text \<open>
  Claim C10. The script itself changes nothing in the working directory but for making
  \<^verbatim>\<open>resized\<close>. When the tool leaves the directory alone, a run ends with the directory it
  started from, or with that directory and a new last entry \<^verbatim>\<open>resized\<close>. The requests the
  script makes of the operating system are the one \<^verbatim>\<open>mkdir\<close> of \<^verbatim>\<open>resized\<close>, at most a look
  at \<^verbatim>\<open>resized\<close> and a listing of the working directory, and then child processes only;
  a candidate reaches a child as two tokens of its command line and in no other way.
\<close>

theorem inputs_untouched:
  "((\<forall>a d. snd (ex a d) = d) \<longrightarrow>
      fs (snd (compress ex \<lparr>fs = f, trace = []\<rparr>)) = f \<or>
      fs (snd (compress ex \<lparr>fs = f, trace = []\<rparr>)) = f\<lparr>entries := entries f @ [(''resized'', Dir)]\<rparr>) \<and>
   (\<exists>pre evs. trace (snd (compress ex \<lparr>fs = f, trace = []\<rparr>)) = Mkdir ''resized'' # pre @ evs \<and>
      set pre \<subseteq> {Stat ''resized'', Listdir ''.''} \<and> sequential evs) \<and>
   (\<exists>k. spawned (trace (snd (compress ex \<lparr>fs = f, trace = []\<rparr>))) =
      take k (map (\<lambda>n. [''magick'', n, ''-resize'', ''512x512>'', ''resized/'' @ n])
        (filter (\<lambda>n. lower (suffix (truediv input_dir n)) \<in> set extensions) (map fst (entries f)))))"
proof -
  let ?s = "\<lparr>fs = f, trace = []\<rparr>"
  have A: "fs (snd (compress ex ?s)) = f \<or>
      fs (snd (compress ex ?s)) = f\<lparr>entries := entries f @ [(''resized'', Dir)]\<rparr>"
    if "\<forall>a d. snd (ex a d) = d"
    using compress_fs [OF that, of ?s] by simp
  from compress_trace [of ex ?s] obtain pre evs where
    T: "trace (snd (compress ex ?s)) = Mkdir ''resized'' # pre @ evs" and
    P: "pre \<in> {[], [Stat ''resized''], [Listdir ''.''], [Stat ''resized'', Listdir ''.'']}" and
    E: "sequential evs"
    by auto
  from P have "set pre \<subseteq> {Stat ''resized'', Listdir ''.''}" by auto
  with T E have B: "\<exists>pre evs. trace (snd (compress ex ?s)) = Mkdir ''resized'' # pre @ evs \<and>
      set pre \<subseteq> {Stat ''resized'', Listdir ''.''} \<and> sequential evs"
    by blast
  from A B compress_spawned [of ex ?s] show ?thesis
    unfolding child_of_input_dir by simp
qed

theorem inputs_untouched_witness:
  "(\<forall>a d. snd (exits_with 0 a d) = d) \<and>
   fs (snd (compress (exits_with 0) \<lparr>fs = photos, trace = []\<rparr>)) =
     photos\<lparr>entries := entries photos @ [(''resized'', Dir)]\<rparr> \<and>
   fs (snd (compress (exits_with 0) \<lparr>fs = albums, trace = []\<rparr>)) = albums"
proof -
  have 1: "\<forall>a d. snd (exits_with 0 a d) = d"
    by (simp add: exits_with_def)
  have 2: "fs (snd (compress (exits_with 0) \<lparr>fs = photos, trace = []\<rparr>)) \<noteq> photos"
    by (simp add: script_defs)
  have 3: "fs (snd (compress (exits_with 0) \<lparr>fs = albums, trace = []\<rparr>)) \<noteq>
      albums\<lparr>entries := entries albums @ [(''resized'', Dir)]\<rparr>"
    by (simp add: script_defs)
  from inputs_untouched [of "exits_with 0" photos] inputs_untouched [of "exits_with 0" albums] 1 2 3
  show ?thesis by blast
qed

end
